theory Spec2Isabelle
  imports Complex_Main
begin

section \<open>Text: Python strings and \<open>str.strip\<close>\<close>

text \<open>
  A Python \<open>str\<close> is modelled as a \<open>string\<close>, a list of characters with code points
  below 256.  \<open>str.strip()\<close> without arguments removes the characters for which
  \<open>str.isspace\<close> holds from both ends; for code points below 256 these are
  U+0009 to U+000D, U+001C to U+0020, U+0085 and U+00A0.
\<close>

definition is_space :: "char \<Rightarrow> bool" where
  "is_space c = ((of_char c :: nat) \<in> {9, 10, 11, 12, 13, 28, 29, 30, 31, 32, 133, 160})"

definition strip :: "string \<Rightarrow> string" where
  "strip s = rev (dropWhile is_space (rev (dropWhile is_space s)))"

section \<open>Numbers: Python floats and the builtin \<open>float\<close>\<close>

text \<open>
  A Python float is either finite or one of the three special values.  Finite floats are
  idealised as real numbers: every arithmetic operation on finite values is exact, so the
  rounding and the overflow of IEEE doubles are outside this model.  The special values
  are kept, because \<open>float\<close> produces them from the texts \<open>inf\<close>, \<open>infinity\<close> and
  \<open>nan\<close>.
\<close>

datatype pyfloat = Finite real | PInf | NInf | NaN

datatype pyerr = ValueError | KeyError | TypeError | AttributeError | ZeroDivisionError

definition is_digit :: "char \<Rightarrow> bool" where
  "is_digit c = (48 \<le> (of_char c :: nat) \<and> (of_char c :: nat) \<le> 57)"

definition digit_val :: "char \<Rightarrow> nat" where
  "digit_val c = of_char c - 48"

definition lower :: "char \<Rightarrow> char" where
  "lower c = (if 65 \<le> (of_char c :: nat) \<and> (of_char c :: nat) \<le> 90
              then char_of ((of_char c :: nat) + 32) else c)"

text \<open>
  The grammar of \<open>float\<close> (Python language reference, after the surrounding whitespace
  is removed):
  \<^verbatim>\<open>
  floatvalue  ::= [sign] (floatnumber | "inf" | "infinity" | "nan")   -- case-insensitive
  floatnumber ::= number [exponent]
  number      ::= [digitpart] "." digitpart | digitpart ["."]
  exponent    ::= ("e" | "E") [sign] digitpart
  digitpart   ::= digit (["_"] digit)*
  \<close>
  \<open>digitpart_tail\<close> reads \<open>(["_"] digit)*\<close>, \<open>digitpart\<close> a whole digit part; both
  return the digits read and the rest of the text.
\<close>

fun digitpart_tail :: "string \<Rightarrow> nat list \<times> string" where
  "digitpart_tail [] = ([], [])"
| "digitpart_tail [c] = (if is_digit c then ([digit_val c], []) else ([], [c]))"
| "digitpart_tail (c # d # cs) =
     (if is_digit c then
        (case digitpart_tail (d # cs) of (ds, r) \<Rightarrow> (digit_val c # ds, r))
      else if c = CHR ''_'' \<and> is_digit d then
        (case digitpart_tail cs of (ds, r) \<Rightarrow> (digit_val d # ds, r))
      else ([], c # d # cs))"

fun digitpart :: "string \<Rightarrow> (nat list \<times> string) option" where
  "digitpart [] = None"
| "digitpart (c # cs) =
     (if is_digit c then
        (case digitpart_tail cs of (ds, r) \<Rightarrow> Some (digit_val c # ds, r))
      else None)"

definition digits_value :: "nat list \<Rightarrow> nat" where
  "digits_value ds = foldl (\<lambda>a d. 10 * a + d) 0 ds"

text \<open>\<open>number\<close>: the integer digits, the fraction digits and the rest.\<close>

definition number :: "string \<Rightarrow> (nat list \<times> nat list \<times> string) option" where
  "number s =
     (case s of
        [] \<Rightarrow> None
      | c # cs \<Rightarrow>
          if c = CHR ''.'' then
            (case digitpart cs of None \<Rightarrow> None | Some (fs, r) \<Rightarrow> Some ([], fs, r))
          else
            (case digitpart s of
               None \<Rightarrow> None
             | Some (ip, r) \<Rightarrow>
                 (case r of
                    [] \<Rightarrow> Some (ip, [], [])
                  | p # r' \<Rightarrow>
                      if p = CHR ''.'' then
                        (case digitpart r' of
                           None \<Rightarrow> Some (ip, [], r')
                         | Some (fs, r'') \<Rightarrow> Some (ip, fs, r''))
                      else Some (ip, [], r))))"

text \<open>\<open>exponent\<close>: the decimal exponent and the rest; no exponent is exponent 0.\<close>

definition sign_of :: "string \<Rightarrow> bool \<times> string" where
  "sign_of s =
     (case s of
        [] \<Rightarrow> (False, [])
      | c # cs \<Rightarrow> if c = CHR ''-'' then (True, cs)
                  else if c = CHR ''+'' then (False, cs) else (False, s))"

definition exponent :: "string \<Rightarrow> (int \<times> string) option" where
  "exponent s =
     (case s of
        [] \<Rightarrow> Some (0, [])
      | c # cs \<Rightarrow>
          if c = CHR ''e'' \<or> c = CHR ''E'' then
            (case sign_of cs of (neg, r) \<Rightarrow>
               (case digitpart r of
                  None \<Rightarrow> None
                | Some (ds, r') \<Rightarrow>
                    Some (if neg then - int (digits_value ds) else int (digits_value ds), r')))
          else Some (0, s))"

definition scale10 :: "real \<Rightarrow> int \<Rightarrow> real" where
  "scale10 m e = (if 0 \<le> e then m * 10 ^ nat e else m / 10 ^ nat (- e))"

definition floatnumber :: "string \<Rightarrow> real option" where
  "floatnumber s =
     (case number s of
        None \<Rightarrow> None
      | Some (ip, fs, r) \<Rightarrow>
          (case exponent r of
             None \<Rightarrow> None
           | Some (e, r') \<Rightarrow>
               if r' = [] then
                 Some (scale10 (real (digits_value (ip @ fs))) (e - int (length fs)))
               else None))"

definition py_float :: "string \<Rightarrow> pyerr + pyfloat" where
  "py_float s =
     (case sign_of (strip s) of (neg, r) \<Rightarrow>
        if map lower r = ''inf'' \<or> map lower r = ''infinity'' then
          Inr (if neg then NInf else PInf)
        else if map lower r = ''nan'' then Inr NaN
        else
          (case floatnumber r of
             None \<Rightarrow> Inl ValueError
           | Some x \<Rightarrow> Inr (Finite (if neg then - x else x))))"

section \<open>The value parser \<open>convert_to_float\<close>\<close>

text \<open>
  The argument is the \<open>value\<close> cell of a row: a text, or Python's \<open>None\<close>.  The
  \<open>except (ValueError, TypeError)\<close> clause turns these two errors into \<open>None\<close>; any
  other error would propagate.
\<close>

definition convert_to_float :: "string option \<Rightarrow> pyerr + pyfloat option" where
  "convert_to_float value_str =
     (case value_str of
        None \<Rightarrow> Inr None
      | Some s \<Rightarrow>
          if strip s = [] then Inr None
          else
            (case py_float (strip s) of
               Inr x \<Rightarrow> Inr (Some x)
             | Inl ValueError \<Rightarrow> Inr None
             | Inl TypeError \<Rightarrow> Inr None
             | Inl e \<Rightarrow> Inl e))"

section \<open>Float arithmetic used by the statistics\<close>

text \<open>
  The operations \<open>+\<close>, \<open>-\<close>, \<open>/\<close>, \<open>** 2\<close>, \<open><\<close> and \<open>math.sqrt\<close> on floats.  On
  finite values they are the exact real operations; on the special values they follow
  IEEE 754 as Python does: \<open>inf - inf\<close> is \<open>nan\<close>, every comparison with \<open>nan\<close> is
  false, \<open>math.sqrt\<close> of a negative number raises \<open>ValueError\<close>, and division by zero
  raises \<open>ZeroDivisionError\<close>.
\<close>

fun fadd :: "pyfloat \<Rightarrow> pyfloat \<Rightarrow> pyfloat" where
  "fadd NaN y = NaN"
| "fadd x NaN = NaN"
| "fadd PInf NInf = NaN"
| "fadd NInf PInf = NaN"
| "fadd PInf y = PInf"
| "fadd x PInf = PInf"
| "fadd NInf y = NInf"
| "fadd x NInf = NInf"
| "fadd (Finite a) (Finite b) = Finite (a + b)"

fun fneg :: "pyfloat \<Rightarrow> pyfloat" where
  "fneg (Finite a) = Finite (- a)"
| "fneg PInf = NInf"
| "fneg NInf = PInf"
| "fneg NaN = NaN"

definition fsub :: "pyfloat \<Rightarrow> pyfloat \<Rightarrow> pyfloat" where
  "fsub x y = fadd x (fneg y)"

fun fpow2 :: "pyfloat \<Rightarrow> pyfloat" where
  "fpow2 (Finite a) = Finite (a ^ 2)"
| "fpow2 PInf = PInf"
| "fpow2 NInf = PInf"
| "fpow2 NaN = NaN"

text \<open>\<open>flt x y\<close> is Python's \<open>x < y\<close>, \<open>fgt x y\<close> is \<open>x > y\<close>.\<close>

fun flt :: "pyfloat \<Rightarrow> pyfloat \<Rightarrow> bool" where
  "flt NaN y = False"
| "flt x NaN = False"
| "flt (Finite a) (Finite b) = (a < b)"
| "flt x NInf = False"
| "flt NInf y = True"
| "flt PInf y = False"
| "flt x PInf = True"

definition fgt :: "pyfloat \<Rightarrow> pyfloat \<Rightarrow> bool" where
  "fgt x y = flt y x"

text \<open>\<open>truediv x n\<close> is \<open>x / n\<close> for a float \<open>x\<close> and a non-negative integer \<open>n\<close>.\<close>

definition truediv :: "pyfloat \<Rightarrow> nat \<Rightarrow> pyerr + pyfloat" where
  "truediv x n =
     (if n = 0 then Inl ZeroDivisionError
      else Inr (case x of Finite a \<Rightarrow> Finite (a / real n) | PInf \<Rightarrow> PInf
                | NInf \<Rightarrow> NInf | NaN \<Rightarrow> NaN))"

fun py_sqrt :: "pyfloat \<Rightarrow> pyerr + pyfloat" where
  "py_sqrt (Finite a) = (if a < 0 then Inl ValueError else Inr (Finite (sqrt a)))"
| "py_sqrt PInf = Inr PInf"
| "py_sqrt NInf = Inl ValueError"
| "py_sqrt NaN = Inr NaN"

text \<open>\<open>sum\<close> starts from the integer 0 and adds the items from left to right.\<close>

definition py_sum :: "pyfloat list \<Rightarrow> pyfloat" where
  "py_sum xs = foldl fadd (Finite 0) xs"

text \<open>
  \<open>min\<close> and \<open>max\<close> keep the first item and replace it by a later one that is
  strictly smaller (larger); on an empty sequence they raise \<open>ValueError\<close>.
\<close>

definition py_min :: "pyfloat list \<Rightarrow> pyerr + pyfloat" where
  "py_min xs =
     (case xs of [] \<Rightarrow> Inl ValueError
      | x # ys \<Rightarrow> Inr (foldl (\<lambda>m y. if flt y m then y else m) x ys))"

definition py_max :: "pyfloat list \<Rightarrow> pyerr + pyfloat" where
  "py_max xs =
     (case xs of [] \<Rightarrow> Inl ValueError
      | x # ys \<Rightarrow> Inr (foldl (\<lambda>m y. if fgt y m then y else m) x ys))"

section \<open>\<open>compute_statistics\<close>\<close>

text \<open>
  The returned dictionary has the five keys \<open>average\<close>, \<open>min\<close>, \<open>max\<close>, \<open>count\<close> and
  \<open>std_dev\<close>; the fields \<open>min_value\<close> and \<open>max_value\<close> carry the names of the local
  variables stored under \<open>min\<close> and \<open>max\<close>.  The integer \<open>0\<close> that the source returns
  as the average of no values is the number \<open>Finite 0\<close>.
\<close>

record statistics =
  average :: pyfloat
  min_value :: pyfloat
  max_value :: pyfloat
  count :: nat
  std_dev :: pyfloat

text \<open>Sequencing of computations that may raise: the first error is the result.\<close>

definition ebind :: "pyerr + 'a \<Rightarrow> ('a \<Rightarrow> pyerr + 'b) \<Rightarrow> pyerr + 'b" where
  "ebind m f = (case m of Inl e \<Rightarrow> Inl e | Inr x \<Rightarrow> f x)"

definition compute_statistics :: "pyfloat option list \<Rightarrow> pyerr + statistics" where
  "compute_statistics values =
     (let valid_values = [v. Some v \<leftarrow> values] in
      if length valid_values = 0 then
        Inr \<lparr>average = Finite 0, min_value = Finite 0, max_value = Finite 0,
             count = 0, std_dev = Finite 0\<rparr>
      else
        let cnt = length valid_values in
        ebind (truediv (py_sum valid_values) cnt) (\<lambda>avg.
        ebind (py_min valid_values) (\<lambda>mn.
        ebind (py_max valid_values) (\<lambda>mx.
        ebind (if cnt = 1 then Inr (Finite 0)
               else ebind (truediv (py_sum (map (\<lambda>x. fpow2 (fsub x avg)) valid_values)) cnt)
                      py_sqrt) (\<lambda>sd.
        Inr \<lparr>average = avg, min_value = mn, max_value = mx,
             count = cnt, std_dev = sd\<rparr>)))))"

text \<open>
  A float is \<open>fnonneg\<close> when \<open>math.sqrt\<close> accepts it: a finite number that is not
  negative, \<open>inf\<close> or \<open>nan\<close>.
\<close>

fun fnonneg :: "pyfloat \<Rightarrow> bool" where
  "fnonneg (Finite a) = (0 \<le> a)"
| "fnonneg PInf = True"
| "fnonneg NInf = False"
| "fnonneg NaN = True"

section \<open>Timestamps: \<open>datetime\<close> and \<open>parse_datetime\<close>\<close>

text \<open>
  A \<open>datetime\<close> object is its wall-clock reading and its \<open>tzinfo\<close>.  The reading (year,
  month, day, hour, minute, second, microsecond) is held as the number of microseconds
  since 0001-01-01 00:00:00 on that clock, which orders readings as Python orders them.
  \<open>tzinfo\<close> is \<open>None\<close> for a naive datetime and otherwise the UTC offset in
  microseconds; \<open>timezone.utc\<close> is the offset 0.
\<close>

record datetime =
  wall :: int
  tzinfo :: "int option"

text \<open>The reading of a calendar date and time of day (proleptic Gregorian calendar).\<close>

definition is_leap :: "int \<Rightarrow> bool" where
  "is_leap y = (y mod 4 = 0 \<and> (y mod 100 \<noteq> 0 \<or> y mod 400 = 0))"

definition days_before_year :: "int \<Rightarrow> int" where
  "days_before_year y = (y - 1) * 365 + (y - 1) div 4 - (y - 1) div 100 + (y - 1) div 400"

definition days_in_month :: "int \<Rightarrow> int \<Rightarrow> int" where
  "days_in_month y m =
     (if m = 2 then (if is_leap y then 29 else 28)
      else if m = 4 \<or> m = 6 \<or> m = 9 \<or> m = 11 then 30 else 31)"

definition days_before_month :: "int \<Rightarrow> int \<Rightarrow> int" where
  "days_before_month y m = sum_list (map (days_in_month y) [1..m - 1])"

definition civil :: "int \<Rightarrow> int \<Rightarrow> int \<Rightarrow> int \<Rightarrow> int \<Rightarrow> int \<Rightarrow> int" where
  "civil y m d hh mm ss =
     (((days_before_year y + days_before_month y m + (d - 1)) * 24 + hh) * 60 + mm) * 60000000
       + ss * 1000000"

text \<open>
  The instant of an aware datetime on the UTC clock.  Python compares two aware
  datetimes by their instants, two naive ones by their readings, and refuses to compare
  a naive with an aware one (\<open>TypeError\<close>).
\<close>

definition dt_lt :: "datetime \<Rightarrow> datetime \<Rightarrow> pyerr + bool" where
  "dt_lt a b =
     (case (tzinfo a, tzinfo b) of
        (None, None) \<Rightarrow> Inr (wall a < wall b)
      | (Some oa, Some ob) \<Rightarrow> Inr (wall a - oa < wall b - ob)
      | _ \<Rightarrow> Inl TypeError)"

definition dt_gt :: "datetime \<Rightarrow> datetime \<Rightarrow> pyerr + bool" where
  "dt_gt a b = dt_lt b a"

text \<open>
  \<open>datetime.strptime\<close> belongs to the Python library, and what its \<open>%Z\<close> accepts
  depends on the time zone of the machine; it is a parameter \<open>sp\<close> of the model:
  \<open>sp text fmt\<close> is \<open>Some\<close> of the parsed datetime, or \<open>None\<close> when \<open>strptime\<close>
  raises \<open>ValueError\<close>.
\<close>

type_synonym strptime = "string \<Rightarrow> string \<Rightarrow> datetime option"

definition formats :: "string list" where
  "formats = [''%Y-%m-%d %H:%M:%S %z %Z'', ''%Y-%m-%d %H:%M:%S'', ''%Y-%m-%d'']"

definition ensure_utc :: "datetime \<Rightarrow> datetime" where
  "ensure_utc dt = (if tzinfo dt = None then dt\<lparr>tzinfo := Some 0\<rparr> else dt)"

text \<open>The loop over the formats: the first format that \<open>strptime\<close> accepts returns.\<close>

fun try_formats :: "strptime \<Rightarrow> string \<Rightarrow> string list \<Rightarrow> pyerr + datetime" where
  "try_formats sp date_str [] = Inl ValueError"
| "try_formats sp date_str (fmt # fmts) =
     (case sp date_str fmt of
        Some dt \<Rightarrow> Inr (ensure_utc dt)
      | None \<Rightarrow> try_formats sp date_str fmts)"

definition parse_datetime :: "strptime \<Rightarrow> string \<Rightarrow> pyerr + datetime" where
  "parse_datetime sp date_str = try_formats sp date_str formats"

section \<open>Rows, filter criteria and \<open>should_include\<close>\<close>

text \<open>
  A row is the dictionary that \<open>csv.DictReader\<close> yields: a column name is absent
  (looking it up raises \<open>KeyError\<close>), or bound to a cell, which is a text or, in a row
  shorter than the header, Python's \<open>None\<close>.  A \<open>reading\<close> is a record of the data
  model, with its six fields present as texts, and \<open>row_of\<close> its dictionary.
\<close>

type_synonym row = "string \<rightharpoonup> string option"

record reading =
  rd_time :: string
  rd_site :: string
  rd_device :: string
  rd_metric :: string
  rd_unit :: string
  rd_value :: string

definition row_of :: "reading \<Rightarrow> row" where
  "row_of r =
     [''time'' \<mapsto> Some (rd_time r), ''site'' \<mapsto> Some (rd_site r),
      ''device'' \<mapsto> Some (rd_device r), ''metric'' \<mapsto> Some (rd_metric r),
      ''unit'' \<mapsto> Some (rd_unit r), ''value'' \<mapsto> Some (rd_value r)]"

definition lookup :: "row \<Rightarrow> string \<Rightarrow> pyerr + string option" where
  "lookup rw k = (case rw k of None \<Rightarrow> Inl KeyError | Some cell \<Rightarrow> Inr cell)"

text \<open>
  The criteria are the attributes of \<open>args\<close>: \<open>site\<close>, \<open>device\<close> and \<open>metric\<close> are
  \<open>None\<close> or a text, \<open>start_date\<close> and \<open>end_date\<close> are \<open>None\<close> or a datetime.  The
  source tests a criterion by its truth value: \<open>None\<close> and the empty text are false,
  every datetime is true.  (An empty \<open>--start-date\<close> is left unparsed by
  \<open>parse_arguments\<close> and is false as well; it is the \<open>None\<close> of this model.)
\<close>

record args =
  site :: "string option"
  device :: "string option"
  metric :: "string option"
  start_date :: "datetime option"
  end_date :: "datetime option"

definition truthy :: "string option \<Rightarrow> bool" where
  "truthy a = (case a of None \<Rightarrow> False | Some s \<Rightarrow> s \<noteq> [])"

text \<open>
  \<open>mismatch crit rw k\<close> is the condition \<open>args.k and row[k] != args.k\<close>: the row is
  read only when the criterion is true.
\<close>

definition mismatch :: "string option \<Rightarrow> row \<Rightarrow> string \<Rightarrow> pyerr + bool" where
  "mismatch crit rw k =
     (if truthy crit then ebind (lookup rw k) (\<lambda>cell. Inr (cell \<noteq> crit)) else Inr False)"

text \<open>
  The body of the \<open>try\<close> block: \<open>row['time'].strip()\<close> raises \<open>KeyError\<close> without the
  column and \<open>AttributeError\<close> on a \<open>None\<close> cell.
\<close>

definition date_range_body :: "strptime \<Rightarrow> row \<Rightarrow> args \<Rightarrow> pyerr + bool" where
  "date_range_body sp rw a =
     ebind (lookup rw ''time'') (\<lambda>cell.
       case cell of
         None \<Rightarrow> Inl AttributeError
       | Some t \<Rightarrow>
           ebind (parse_datetime sp (strip t)) (\<lambda>row_time.
           ebind (case start_date a of None \<Rightarrow> Inr False
                  | Some sd \<Rightarrow> dt_lt row_time sd) (\<lambda>too_early.
           if too_early then Inr False
           else
             ebind (case end_date a of None \<Rightarrow> Inr False
                    | Some ed \<Rightarrow> dt_gt row_time ed) (\<lambda>too_late.
             if too_late then Inr False else Inr True))))"

text \<open>\<open>except (ValueError, KeyError): return False\<close>; other errors propagate.\<close>

definition date_range :: "strptime \<Rightarrow> row \<Rightarrow> args \<Rightarrow> pyerr + bool" where
  "date_range sp rw a =
     (case date_range_body sp rw a of
        Inl ValueError \<Rightarrow> Inr False
      | Inl KeyError \<Rightarrow> Inr False
      | Inl e \<Rightarrow> Inl e
      | Inr b \<Rightarrow> Inr b)"

definition should_include :: "strptime \<Rightarrow> row \<Rightarrow> args \<Rightarrow> pyerr + bool" where
  "should_include sp rw a =
     ebind (mismatch (site a) rw ''site'') (\<lambda>m1.
     if m1 then Inr False
     else
       ebind (mismatch (device a) rw ''device'') (\<lambda>m2.
       if m2 then Inr False
       else
         ebind (mismatch (metric a) rw ''metric'') (\<lambda>m3.
         if m3 then Inr False
         else if start_date a \<noteq> None \<or> end_date a \<noteq> None then date_range sp rw a
         else Inr True)))"

text \<open>
  The filter as the specification words it, for a reading: a text criterion is met when
  it is absent or equal to the field, and an active date range requires the trimmed
  time to parse and to lie between the bounds that are present, bounds included.
\<close>

definition instant :: "datetime \<Rightarrow> int" where
  "instant d = wall d - (case tzinfo d of None \<Rightarrow> 0 | Some off \<Rightarrow> off)"

definition criterion_ok :: "string option \<Rightarrow> string \<Rightarrow> bool" where
  "criterion_ok crit x = (crit = None \<or> crit = Some x)"

definition in_range_spec :: "strptime \<Rightarrow> reading \<Rightarrow> args \<Rightarrow> bool" where
  "in_range_spec sp r a =
     (case parse_datetime sp (strip (rd_time r)) of
        Inl e \<Rightarrow> False
      | Inr t \<Rightarrow>
          (case start_date a of None \<Rightarrow> True | Some sd \<Rightarrow> instant sd \<le> instant t) \<and>
          (case end_date a of None \<Rightarrow> True | Some ed \<Rightarrow> instant t \<le> instant ed))"

definition should_include_spec :: "strptime \<Rightarrow> reading \<Rightarrow> args \<Rightarrow> bool" where
  "should_include_spec sp r a =
     (criterion_ok (site a) (rd_site r) \<and>
      criterion_ok (device a) (rd_device r) \<and>
      criterion_ok (metric a) (rd_metric r) \<and>
      (if start_date a \<noteq> None \<or> end_date a \<noteq> None then in_range_spec sp r a else True))"

text \<open>
  What the source tests instead: a text criterion is met when it is false, that is
  absent or empty, or equal to the field.
\<close>

definition criterion_met :: "string option \<Rightarrow> string \<Rightarrow> bool" where
  "criterion_met crit x = (\<not> truthy crit \<or> crit = Some x)"

text \<open>The date criteria that \<open>parse_arguments\<close> produces are timezone-aware.\<close>

definition aware :: "datetime option \<Rightarrow> bool" where
  "aware d = (case d of None \<Rightarrow> True | Some dt \<Rightarrow> tzinfo dt \<noteq> None)"

text \<open>
  A \<open>strptime\<close> for the examples.  It returns what \<open>datetime.strptime\<close> returns
  on five timestamp texts: the three timestamps of the test fixture \<open>mini.csv\<close>, a
  date with a time of day, and a date.  It rejects every other text.
\<close>

definition strptime_sample :: strptime where
  "strptime_sample s fmt =
     (if fmt = ''%Y-%m-%d %H:%M:%S %z %Z'' \<and> s = ''2025-01-01 00:00:00 +0000 UTC''
        then Some \<lparr>wall = civil 2025 1 1 0 0 0, tzinfo = Some 0\<rparr>
      else if fmt = ''%Y-%m-%d %H:%M:%S %z %Z'' \<and> s = ''2025-01-01 00:05:00 +0000 UTC''
        then Some \<lparr>wall = civil 2025 1 1 0 5 0, tzinfo = Some 0\<rparr>
      else if fmt = ''%Y-%m-%d %H:%M:%S %z %Z'' \<and> s = ''2025-01-01 00:10:00 +0000 UTC''
        then Some \<lparr>wall = civil 2025 1 1 0 10 0, tzinfo = Some 0\<rparr>
      else if fmt = ''%Y-%m-%d %H:%M:%S'' \<and> s = ''2025-01-01 00:05:00''
        then Some \<lparr>wall = civil 2025 1 1 0 5 0, tzinfo = None\<rparr>
      else if fmt = ''%Y-%m-%d'' \<and> s = ''2025-01-01''
        then Some \<lparr>wall = civil 2025 1 1 0 0 0, tzinfo = None\<rparr>
      else None)"

section \<open>The aggregation loop of \<open>main\<close>\<close>

text \<open>
  \<open>aggregations\<close> is a \<open>defaultdict(list)\<close> from the key (device, site, metric) to the
  list of the values of the group.  It is an association list in the order in which the
  keys were first seen, which is the iteration order of the dictionary.  The components
  of a key are cells of a row.
\<close>

type_synonym group_key = "string option \<times> string option \<times> string option"

type_synonym aggregations = "(group_key \<times> pyfloat list) list"

text \<open>\<open>aggregations[key].append(value)\<close>: a new key starts a group at the end.\<close>

fun append_value :: "aggregations \<Rightarrow> group_key \<Rightarrow> pyfloat \<Rightarrow> aggregations" where
  "append_value [] k x = [(k, [x])]"
| "append_value ((k', vs) # rest) k x =
     (if k' = k then (k', vs @ [x]) # rest else (k', vs) # append_value rest k x)"

text \<open>The body of the \<open>for row in reader\<close> loop.\<close>

definition process_row :: "strptime \<Rightarrow> args \<Rightarrow> aggregations \<Rightarrow> row \<Rightarrow> pyerr + aggregations" where
  "process_row sp a aggs rw =
     ebind (should_include sp rw a) (\<lambda>inc.
     if inc then
       ebind (lookup rw ''device'') (\<lambda>d.
       ebind (lookup rw ''site'') (\<lambda>s.
       ebind (lookup rw ''metric'') (\<lambda>m.
       ebind (lookup rw ''value'') (\<lambda>cell.
       ebind (convert_to_float cell) (\<lambda>v.
       case v of
         None \<Rightarrow> Inr aggs
       | Some x \<Rightarrow> Inr (append_value aggs (d, s, m) x))))))
     else Inr aggs)"

text \<open>
  The loop over the rows of the file.  An error raised in the loop is caught by
  \<open>except Exception\<close>: \<open>main\<close> prints it and returns without any report, which is the
  result \<open>Inl\<close>.
\<close>

fun aggregate :: "strptime \<Rightarrow> args \<Rightarrow> aggregations \<Rightarrow> row list \<Rightarrow> pyerr + aggregations" where
  "aggregate sp a aggs [] = Inr aggs"
| "aggregate sp a aggs (rw # rws) =
     ebind (process_row sp a aggs rw) (\<lambda>aggs'. aggregate sp a aggs' rws)"

text \<open>The pairs of a key and a value stored under it.\<close>

definition stored :: "aggregations \<Rightarrow> (group_key \<times> pyfloat) set" where
  "stored aggs = {(k, v). \<exists>vs. (k, vs) \<in> set aggs \<and> v \<in> set vs}"

fun is_finite :: "pyfloat \<Rightarrow> bool" where
  "is_finite (Finite a) = True"
| "is_finite PInf = False"
| "is_finite NInf = False"
| "is_finite NaN = False"

text \<open>
  \<open>contributes sp a rw k v\<close>: the row passes the filter, its device, site and metric
  cells form the key \<open>k\<close>, and \<open>convert_to_float\<close> returns the number \<open>v\<close> for its
  value cell.
\<close>

definition contributes :: "strptime \<Rightarrow> args \<Rightarrow> row \<Rightarrow> group_key \<Rightarrow> pyfloat \<Rightarrow> bool" where
  "contributes sp a rw k v =
     (should_include sp rw a = Inr True \<and>
      lookup rw ''device'' = Inr (fst k) \<and>
      lookup rw ''site'' = Inr (fst (snd k)) \<and>
      lookup rw ''metric'' = Inr (snd (snd k)) \<and>
      (\<exists>cell. lookup rw ''value'' = Inr cell \<and> convert_to_float cell = Inr (Some v)))"

section \<open>The statistics of every group and the ranking\<close>

text \<open>
  \<open>stats[key] = {'device': ..., 'site': ..., 'metric': ..., **compute_statistics(values)}\<close>
  for every group, in the order of the groups; the three texts are the components of
  the key.
\<close>

type_synonym stats_items = "(group_key \<times> statistics) list"

fun stats_of :: "aggregations \<Rightarrow> pyerr + stats_items" where
  "stats_of [] = Inr []"
| "stats_of ((k, vs) # rest) =
     ebind (compute_statistics (map Some vs)) (\<lambda>st.
     ebind (stats_of rest) (\<lambda>r. Inr ((k, st) # r)))"

text \<open>
  \<open>sorted(items, key=f, reverse=True)\<close>.  Python's sort is stable and decided by \<open><\<close>
  on the keys alone; for \<open>reverse=True\<close> it reverses the list, sorts it in ascending
  order and reverses the result.  On fewer than 64 items the sort is a binary insertion
  sort: each item is inserted into the sorted prefix at the position that
  \<open>bisect_right\<close> finds.  (Before that CPython skips an initial run that is already in
  order, and it sorts longer lists in runs that it merges; whenever \<open><\<close> totally
  preorders the keys, as it does without \<open>nan\<close>, every stable sort gives the same
  list.)
\<close>

function bisect_right :: "pyfloat list \<Rightarrow> pyfloat \<Rightarrow> nat \<Rightarrow> nat \<Rightarrow> nat" where
  "bisect_right ks x l r =
     (if l < r then
        (let p = l + (r - l) div 2 in
         if flt x (ks ! p) then bisect_right ks x l p else bisect_right ks x (p + 1) r)
      else l)"
  by pat_completeness auto
termination
  by (relation "measure (\<lambda>(ks, x, l, r). r - l)") auto

definition binary_insert :: "('a \<Rightarrow> pyfloat) \<Rightarrow> 'a list \<Rightarrow> 'a \<Rightarrow> 'a list" where
  "binary_insert f acc x =
     (let i = bisect_right (map f acc) (f x) 0 (length acc)
      in take i acc @ [x] @ drop i acc)"

definition py_sort :: "('a \<Rightarrow> pyfloat) \<Rightarrow> 'a list \<Rightarrow> 'a list" where
  "py_sort f xs = foldl (binary_insert f) [] xs"

definition sorted_reverse :: "('a \<Rightarrow> pyfloat) \<Rightarrow> 'a list \<Rightarrow> 'a list" where
  "sorted_reverse f xs = rev (py_sort f (rev xs))"

definition top_by_avg :: "stats_items \<Rightarrow> stats_items" where
  "top_by_avg stats = take 10 (sorted_reverse (\<lambda>x. average (snd x)) stats)"

definition top_by_stddev :: "stats_items \<Rightarrow> stats_items" where
  "top_by_stddev stats = take 10 (sorted_reverse (\<lambda>x. std_dev (snd x)) stats)"

text \<open>
  \<open>fge x y\<close> is Python's \<open>x >= y\<close>.  A list is in descending order by \<open>f\<close> when every
  entry is \<open>>=\<close> every later entry.
\<close>

definition fge :: "pyfloat \<Rightarrow> pyfloat \<Rightarrow> bool" where
  "fge x y = (x \<noteq> NaN \<and> y \<noteq> NaN \<and> \<not> flt x y)"

definition descending_by :: "('a \<Rightarrow> pyfloat) \<Rightarrow> 'a list \<Rightarrow> bool" where
  "descending_by f xs = sorted_wrt (\<lambda>a b. fge (f a) (f b)) xs"

text \<open>
  The part of \<open>main\<close> that computes: the groups, their statistics and the two rankings
  (the rest of \<open>main\<close> prints them).
\<close>

definition main_report ::
  "strptime \<Rightarrow> args \<Rightarrow> row list \<Rightarrow> pyerr + (stats_items \<times> stats_items \<times> stats_items)" where
  "main_report sp a rws =
     ebind (aggregate sp a [] rws) (\<lambda>aggs.
     ebind (stats_of aggs) (\<lambda>stats.
     Inr (stats, top_by_avg stats, top_by_stddev stats)))"

chapter \<open>Properties\<close>

section \<open>Auxiliary facts about the value parser and the statistics\<close>

lemma py_float_err: "py_float s = Inl e \<Longrightarrow> e = ValueError"
  by (auto simp: py_float_def split: prod.splits if_splits option.splits)

lemma valid_map_Some: "[v. Some v \<leftarrow> map Some xs] = xs"
  by (induction xs) auto

lemma valid_filter: "[v. Some v \<leftarrow> filter (\<lambda>v. v \<noteq> None) vs] = [v. Some v \<leftarrow> vs]"
  by (induction vs) auto

lemma foldl_fadd_Finite: "foldl fadd (Finite a) (map Finite xs) = Finite (a + sum_list xs)"
  by (induction xs arbitrary: a) (auto simp: algebra_simps)

lemma py_sum_Finite: "py_sum (map Finite xs) = Finite (sum_list xs)"
  by (simp add: py_sum_def foldl_fadd_Finite)

lemma foldl_min_Finite:
  "foldl (\<lambda>m y. if flt y m then y else m) (Finite a) (map Finite xs) = Finite (fold min xs a)"
  by (induction xs arbitrary: a) (auto simp: min_def)

lemma foldl_max_Finite:
  "foldl (\<lambda>m y. if fgt y m then y else m) (Finite a) (map Finite xs) = Finite (fold max xs a)"
  by (induction xs arbitrary: a) (auto simp: max_def fgt_def)

lemma py_min_Finite: "xs \<noteq> [] \<Longrightarrow> py_min (map Finite xs) = Inr (Finite (Min (set xs)))"
  by (cases xs) (simp_all add: py_min_def foldl_min_Finite Min.set_eq_fold del: set_simps)

lemma py_max_Finite: "xs \<noteq> [] \<Longrightarrow> py_max (map Finite xs) = Inr (Finite (Max (set xs)))"
  by (cases xs) (simp_all add: py_max_def foldl_max_Finite Max.set_eq_fold del: set_simps)

lemma sq_sum_Finite:
  "py_sum (map (\<lambda>x. fpow2 (fsub x (Finite m))) (map Finite xs)) = Finite (\<Sum>x\<leftarrow>xs. (x - m)\<^sup>2)"
proof -
  have "map (\<lambda>x. fpow2 (fsub x (Finite m))) (map Finite xs) = map Finite (map (\<lambda>x. (x - m)\<^sup>2) xs)"
    by (simp add: fsub_def)
  then show ?thesis by (simp only: py_sum_Finite)
qed

lemma sum_sq_nonneg: "0 \<le> (\<Sum>x\<leftarrow>xs. (x - m)\<^sup>2)" for m :: real
  by (induction xs) auto

text \<open>
  On a non-empty list of finite values the five results are the textbook quantities.
\<close>

lemma compute_statistics_Finite:
  assumes "xs \<noteq> []"
  shows "compute_statistics (map (Some \<circ> Finite) xs) =
     Inr \<lparr>average = Finite (sum_list xs / real (length xs)),
          min_value = Finite (Min (set xs)), max_value = Finite (Max (set xs)),
          count = length xs,
          std_dev = Finite (if length xs = 1 then 0
             else sqrt ((\<Sum>x\<leftarrow>xs. (x - sum_list xs / real (length xs))\<^sup>2) / real (length xs)))\<rparr>"
proof -
  define m where "m = sum_list xs / real (length xs)"
  define q where "q = (\<Sum>x\<leftarrow>xs. (x - m)\<^sup>2) / real (length xs)"
  have v: "[v. Some v \<leftarrow> map (Some \<circ> Finite) xs] = map Finite xs"
    using valid_map_Some [of "map Finite xs"] by (simp add: comp_def)
  have n: "length xs \<noteq> 0" "length (map Finite xs) = length xs" using assms by simp_all
  have avg: "truediv (py_sum (map Finite xs)) (length xs) = Inr (Finite m)"
    using n by (simp add: truediv_def py_sum_Finite m_def)
  have var: "truediv (py_sum (map (\<lambda>x. fpow2 (fsub x (Finite m))) (map Finite xs))) (length xs)
      = Inr (Finite q)"
    using n by (simp only: sq_sum_Finite) (simp add: truediv_def q_def)
  have var': "truediv (py_sum (map ((\<lambda>x. fpow2 (fsub x (Finite m))) \<circ> Finite) xs)) (length xs)
      = Inr (Finite q)"
    using var by simp
  have q0: "0 \<le> q" unfolding q_def using sum_sq_nonneg [where xs = xs and m = m] by simp
  then have nq: "\<not> q < 0" by simp
  from q0 have sd: "py_sqrt (Finite q) = Inr (Finite (sqrt q))" by simp
  show ?thesis
    unfolding compute_statistics_def Let_def v n(2)
    using n(1) assms
    by (simp add: avg var' nq ebind_def py_min_Finite py_max_Finite sd m_def [symmetric] q_def [symmetric])
qed

section \<open>The value parser\<close>


section \<open>The statistics never fail\<close>

lemma fnonneg_fpow2: "fnonneg (fpow2 x)"
  by (cases x) simp_all

lemma fnonneg_fadd: "fnonneg a \<Longrightarrow> fnonneg b \<Longrightarrow> fnonneg (fadd a b)"
  by (cases a; cases b) simp_all

lemma fnonneg_foldl:
  "fnonneg a \<Longrightarrow> (\<And>x. x \<in> set xs \<Longrightarrow> fnonneg x) \<Longrightarrow> fnonneg (foldl fadd a xs)"
  by (induction xs arbitrary: a) (simp_all add: fnonneg_fadd)

lemma fnonneg_sq_sum: "fnonneg (py_sum (map (\<lambda>x. fpow2 (fsub x m)) xs))"
  unfolding py_sum_def by (rule fnonneg_foldl) (auto simp: fnonneg_fpow2)

lemma truediv_fnonneg: "fnonneg x \<Longrightarrow> n \<noteq> 0 \<Longrightarrow> \<exists>y. truediv x n = Inr y \<and> fnonneg y"
  by (cases x) (simp_all add: truediv_def)

lemma py_sqrt_fnonneg: "fnonneg y \<Longrightarrow> \<exists>z. py_sqrt y = Inr z"
  by (cases y) simp_all

lemma ebind_Inr: "ebind (Inr x) f = f x"
  by (simp add: ebind_def)

lemma std_dev_defined:
  "n \<noteq> 0 \<Longrightarrow> \<exists>z. ebind (truediv (py_sum (map (\<lambda>x. fpow2 (fsub x m)) xs)) n) py_sqrt = Inr z"
proof -
  assume "n \<noteq> 0"
  then obtain y where "truediv (py_sum (map (\<lambda>x. fpow2 (fsub x m)) xs)) n = Inr y" "fnonneg y"
    using truediv_fnonneg [OF fnonneg_sq_sum] by blast
  then show ?thesis using py_sqrt_fnonneg [of y] by (simp add: ebind_def)
qed

lemma compute_statistics_defined:
  "\<exists>st. compute_statistics vs = Inr st \<and> count st = length [v. Some v \<leftarrow> vs]"
proof (cases "[v. Some v \<leftarrow> vs] = []")
  case True
  then show ?thesis by (simp add: compute_statistics_def)
next
  case False
  define ws where "ws = [v. Some v \<leftarrow> vs]"
  have ne: "ws \<noteq> []" "length ws \<noteq> 0" using False by (simp_all add: ws_def)
  obtain a where a: "truediv (py_sum ws) (length ws) = Inr a"
    using ne by (auto simp: truediv_def)
  obtain mn where mn: "py_min ws = Inr mn"
    using ne by (cases ws) (auto simp: py_min_def)
  obtain mx where mx: "py_max ws = Inr mx"
    using ne by (cases ws) (auto simp: py_max_def)
  obtain z where z: "ebind (truediv (py_sum (map (\<lambda>x. fpow2 (fsub x a)) ws)) (length ws)) py_sqrt = Inr z"
    using std_dev_defined [OF ne(2)] by blast
  show ?thesis
    unfolding compute_statistics_def Let_def ws_def [symmetric]
    using ne by (simp add: a mn mx z ebind_Inr)
qed

section \<open>Statistics of the values of a group\<close>

text \<open>
  Claim C7.  For the empty sequence of values \<open>compute_statistics\<close> returns, without
  raising an error, the statistics whose five fields are zero: average 0, min 0.0,
  max 0.0, count 0 and std_dev 0.0.
\<close>

theorem compute_statistics_empty:
  "compute_statistics [] =
     Inr \<lparr>average = Finite 0, min_value = Finite 0, max_value = Finite 0,
          count = 0, std_dev = Finite 0\<rparr>"
  by (simp add: compute_statistics_def)

text \<open>
  Claim C10.  For every list of optional values, \<open>compute_statistics\<close> has the same
  outcome as on the sublist without the \<open>None\<close> entries, and as on the list of the
  values that are present: a \<open>None\<close> entry contributes to no field and causes no
  error.
\<close>

theorem compute_statistics_ignores_None:
  "compute_statistics vs = compute_statistics (filter (\<lambda>v. v \<noteq> None) vs) \<and>
   compute_statistics vs = compute_statistics (map Some [v. Some v \<leftarrow> vs])"
proof
  show "compute_statistics vs = compute_statistics (filter (\<lambda>v. v \<noteq> None) vs)"
    by (simp only: compute_statistics_def valid_filter)
  show "compute_statistics vs = compute_statistics (map Some [v. Some v \<leftarrow> vs])"
    by (simp only: compute_statistics_def valid_map_Some)
qed

text \<open>
  Claim C1.  For every non-empty sequence of numbers (finite values, in exact
  arithmetic) \<open>compute_statistics\<close> returns: count, the number of elements; average, the
  sum divided by the count; min and max, the least and the greatest element; std_dev,
  the population standard deviation, the square root of the mean of the squared
  deviations from the average with divisor count, which is exactly 0.0 when the count
  is 1.  The sequence 10.0, 20.0, 30.0 yields count 3, min 10.0, max 30.0, average 20.0
  and std_dev \<open>sqrt (200 / 3)\<close>.
\<close>

theorem compute_statistics_correct:
  "(xs \<noteq> [] \<longrightarrow>
      compute_statistics (map (Some \<circ> Finite) xs) =
        Inr \<lparr>average = Finite (sum_list xs / real (length xs)),
             min_value = Finite (Min (set xs)),
             max_value = Finite (Max (set xs)),
             count = length xs,
             std_dev = Finite (if length xs = 1 then 0
                else sqrt ((\<Sum>x\<leftarrow>xs. (x - sum_list xs / real (length xs))\<^sup>2)
                           / real (length xs)))\<rparr>) \<and>
   compute_statistics [Some (Finite 10), Some (Finite 20), Some (Finite 30)] =
     Inr \<lparr>average = Finite 20, min_value = Finite 10, max_value = Finite 30,
          count = 3, std_dev = Finite (sqrt (200 / 3))\<rparr>"
proof
  show "xs \<noteq> [] \<longrightarrow>
      compute_statistics (map (Some \<circ> Finite) xs) =
        Inr \<lparr>average = Finite (sum_list xs / real (length xs)),
             min_value = Finite (Min (set xs)),
             max_value = Finite (Max (set xs)),
             count = length xs,
             std_dev = Finite (if length xs = 1 then 0
                else sqrt ((\<Sum>x\<leftarrow>xs. (x - sum_list xs / real (length xs))\<^sup>2)
                           / real (length xs)))\<rparr>"
    using compute_statistics_Finite [of xs] by blast
next
  have "[10, 20, 30 :: real] \<noteq> []" by simp
  from compute_statistics_Finite [OF this]
  show "compute_statistics [Some (Finite 10), Some (Finite 20), Some (Finite 30)] =
     Inr \<lparr>average = Finite 20, min_value = Finite 10, max_value = Finite 30,
          count = 3, std_dev = Finite (sqrt (200 / 3))\<rparr>"
    by (simp add: power2_eq_square)
qed

theorem compute_statistics_correct_witness:
  "compute_statistics [Some (Finite 1), Some (Finite 2), Some (Finite 3), Some (Finite 4)] =
     Inr \<lparr>average = Finite (5 / 2), min_value = Finite 1, max_value = Finite 4,
          count = 4, std_dev = Finite (sqrt (5 / 4))\<rparr>"
proof -
  have "[1, 2, 3, 4 :: real] \<noteq> []" by simp
  with compute_statistics_correct [of "[1, 2, 3, 4]"]
  show ?thesis by (simp add: power2_eq_square)
qed

lemma sum_list_lower: "(\<And>x. x \<in> set xs \<Longrightarrow> m \<le> x) \<Longrightarrow> m * real (length xs) \<le> sum_list xs" for m :: real
  by (induction xs) (auto simp: algebra_simps add_mono)

lemma sum_list_upper: "(\<And>x. x \<in> set xs \<Longrightarrow> x \<le> m) \<Longrightarrow> sum_list xs \<le> m * real (length xs)" for m :: real
  by (induction xs) (auto simp: algebra_simps add_mono)

lemma mean_bounds:
  fixes xs :: "real list"
  assumes "xs \<noteq> []"
  shows "Min (set xs) \<le> sum_list xs / real (length xs)"
    and "sum_list xs / real (length xs) \<le> Max (set xs)"
proof -
  have n: "0 < real (length xs)" using assms by simp
  have "Min (set xs) * real (length xs) \<le> sum_list xs"
    by (rule sum_list_lower) simp
  then show "Min (set xs) \<le> sum_list xs / real (length xs)"
    using n by (simp add: pos_le_divide_eq)
  have "sum_list xs \<le> Max (set xs) * real (length xs)"
    by (rule sum_list_upper) simp
  then show "sum_list xs / real (length xs) \<le> Max (set xs)"
    using n by (simp add: pos_divide_le_eq)
qed

text \<open>
  Claim C9.  For every non-empty sequence of numbers (finite values, in exact
  arithmetic) the statistics that \<open>compute_statistics\<close> returns satisfy
  min \<open>\<le>\<close> average \<open>\<le>\<close> max and std_dev \<open>\<ge>\<close> 0; for a sequence of one element the
  std_dev is exactly 0.0 and average, min and max are that element.
\<close>

theorem compute_statistics_bounds:
  "(xs \<noteq> [] \<longrightarrow>
      (\<exists>av mn mx sd.
          compute_statistics (map (Some \<circ> Finite) xs) =
            Inr \<lparr>average = Finite av, min_value = Finite mn, max_value = Finite mx,
                 count = length xs, std_dev = Finite sd\<rparr> \<and>
          mn \<le> av \<and> av \<le> mx \<and> 0 \<le> sd)) \<and>
   compute_statistics [Some (Finite x)] =
     Inr \<lparr>average = Finite x, min_value = Finite x, max_value = Finite x,
          count = 1, std_dev = Finite 0\<rparr>"
proof
  show "xs \<noteq> [] \<longrightarrow>
      (\<exists>av mn mx sd.
          compute_statistics (map (Some \<circ> Finite) xs) =
            Inr \<lparr>average = Finite av, min_value = Finite mn, max_value = Finite mx,
                 count = length xs, std_dev = Finite sd\<rparr> \<and>
          mn \<le> av \<and> av \<le> mx \<and> 0 \<le> sd)"
  proof
    assume ne: "xs \<noteq> []"
    have "0 \<le> (if length xs = 1 then 0
                else sqrt ((\<Sum>x\<leftarrow>xs. (x - sum_list xs / real (length xs))\<^sup>2)
                           / real (length xs)))"
      using sum_sq_nonneg [where xs = xs and m = "sum_list xs / real (length xs)"] by simp
    with compute_statistics_Finite [OF ne] mean_bounds [OF ne]
    show "\<exists>av mn mx sd.
          compute_statistics (map (Some \<circ> Finite) xs) =
            Inr \<lparr>average = Finite av, min_value = Finite mn, max_value = Finite mx,
                 count = length xs, std_dev = Finite sd\<rparr> \<and>
          mn \<le> av \<and> av \<le> mx \<and> 0 \<le> sd"
      by blast
  qed
next
  show "compute_statistics [Some (Finite x)] =
     Inr \<lparr>average = Finite x, min_value = Finite x, max_value = Finite x,
          count = 1, std_dev = Finite 0\<rparr>"
    using compute_statistics_Finite [of "[x]"] by simp
qed

theorem compute_statistics_bounds_witness:
  "\<exists>av mn mx sd.
      compute_statistics [Some (Finite 50), Some (Finite 55)] =
        Inr \<lparr>average = Finite av, min_value = Finite mn, max_value = Finite mx,
             count = 2, std_dev = Finite sd\<rparr> \<and>
      mn \<le> av \<and> av \<le> mx \<and> 0 \<le> sd"
proof -
  have "[50, 55 :: real] \<noteq> []" by simp
  with compute_statistics_bounds [of "[50, 55]" 0]
  show ?thesis by (simp add: numeral_2_eq_2)
qed

section \<open>The timestamp parser\<close>

lemma try_formats_err: "try_formats sp s fmts = Inl e \<Longrightarrow> e = ValueError"
  by (induction fmts) (auto split: option.splits)

lemma parse_datetime_err: "parse_datetime sp s = Inl e \<Longrightarrow> e = ValueError"
  unfolding parse_datetime_def by (rule try_formats_err)

lemma ensure_utc_aware: "tzinfo (ensure_utc d) \<noteq> None"
  by (simp add: ensure_utc_def)

lemma try_formats_aware: "try_formats sp s fmts = Inr d \<Longrightarrow> tzinfo d \<noteq> None"
  by (induction fmts) (auto split: option.splits simp: ensure_utc_def)

lemma parse_datetime_aware: "parse_datetime sp s = Inr d \<Longrightarrow> tzinfo d \<noteq> None"
  unfolding parse_datetime_def by (rule try_formats_aware)

text \<open>
  Claim C5.  For every input text \<open>parse_datetime\<close> tries the three formats
  \<open>%Y-%m-%d %H:%M:%S %z %Z\<close>, \<open>%Y-%m-%d %H:%M:%S\<close> and \<open>%Y-%m-%d\<close> in this order and
  returns the result of the first one that \<open>strptime\<close> accepts; a result without a
  timezone is assigned UTC, a result with one is returned as it is; and a parse error
  is raised exactly when \<open>strptime\<close> accepts none of the three formats.
\<close>

theorem parse_datetime_first_format:
  "parse_datetime sp s =
     (case sp s ''%Y-%m-%d %H:%M:%S %z %Z'' of
        Some d \<Rightarrow> Inr (ensure_utc d)
      | None \<Rightarrow>
          (case sp s ''%Y-%m-%d %H:%M:%S'' of
             Some d \<Rightarrow> Inr (ensure_utc d)
           | None \<Rightarrow>
               (case sp s ''%Y-%m-%d'' of
                  Some d \<Rightarrow> Inr (ensure_utc d)
                | None \<Rightarrow> Inl ValueError))) \<and>
   ensure_utc d = (if tzinfo d = None then d\<lparr>tzinfo := Some 0\<rparr> else d) \<and>
   ((\<exists>e. parse_datetime sp s = Inl e) =
      (sp s ''%Y-%m-%d %H:%M:%S %z %Z'' = None \<and> sp s ''%Y-%m-%d %H:%M:%S'' = None \<and>
       sp s ''%Y-%m-%d'' = None))"
  by (auto simp: parse_datetime_def formats_def ensure_utc_def split: option.splits)

lemma parse_datetime_example:
  "parse_datetime strptime_sample ''2025-01-01'' =
     Inr \<lparr>wall = civil 2025 1 1 0 0 0, tzinfo = Some 0\<rparr>"
  by (simp add: parse_datetime_def formats_def strptime_sample_def ensure_utc_def)

section \<open>The row filter\<close>

lemma lookup_row_of:
  "lookup (row_of r) ''time'' = Inr (Some (rd_time r))"
  "lookup (row_of r) ''site'' = Inr (Some (rd_site r))"
  "lookup (row_of r) ''device'' = Inr (Some (rd_device r))"
  "lookup (row_of r) ''metric'' = Inr (Some (rd_metric r))"
  "lookup (row_of r) ''value'' = Inr (Some (rd_value r))"
  by (simp_all add: lookup_def row_of_def)

lemma mismatch_row_of:
  "mismatch crit (row_of r) ''site'' = Inr (\<not> criterion_met crit (rd_site r))"
  "mismatch crit (row_of r) ''device'' = Inr (\<not> criterion_met crit (rd_device r))"
  "mismatch crit (row_of r) ''metric'' = Inr (\<not> criterion_met crit (rd_metric r))"
  by (auto simp: mismatch_def lookup_row_of ebind_def criterion_met_def)

lemma should_include_row_of:
  "should_include sp (row_of r) a =
     (if criterion_met (site a) (rd_site r) \<and> criterion_met (device a) (rd_device r) \<and>
         criterion_met (metric a) (rd_metric r)
      then (if start_date a \<noteq> None \<or> end_date a \<noteq> None then date_range sp (row_of r) a
            else Inr True)
      else Inr False)"
  by (simp add: should_include_def mismatch_row_of ebind_def)

lemma dt_lt_aware:
  "tzinfo x \<noteq> None \<Longrightarrow> tzinfo y \<noteq> None \<Longrightarrow> dt_lt x y = Inr (instant x < instant y)"
  by (auto simp: dt_lt_def instant_def)

lemma date_range_row_of:
  assumes "aware (start_date a)" "aware (end_date a)"
  shows "date_range sp (row_of r) a = Inr (in_range_spec sp r a)"
proof (cases "parse_datetime sp (strip (rd_time r))")
  case (Inl e)
  then have "e = ValueError" by (rule parse_datetime_err)
  with Inl show ?thesis
    by (simp add: date_range_def date_range_body_def lookup_row_of ebind_def in_range_spec_def)
next
  case (Inr t)
  then have t: "tzinfo t \<noteq> None" by (rule parse_datetime_aware)
  have s: "(case start_date a of None \<Rightarrow> Inr False | Some sd \<Rightarrow> dt_lt t sd) =
      Inr (\<not> (case start_date a of None \<Rightarrow> True | Some sd \<Rightarrow> instant sd \<le> instant t))"
    using assms(1) t by (auto simp: aware_def dt_lt_aware split: option.splits)
  have e: "(case end_date a of None \<Rightarrow> Inr False | Some ed \<Rightarrow> dt_gt t ed) =
      Inr (\<not> (case end_date a of None \<Rightarrow> True | Some ed \<Rightarrow> instant t \<le> instant ed))"
    using assms(2) t by (auto simp: aware_def dt_gt_def dt_lt_aware split: option.splits)
  show ?thesis
    by (simp add: date_range_def date_range_body_def lookup_row_of ebind_def in_range_spec_def
        Inr s e)
qed

lemma date_range_unparsable:
  assumes "parse_datetime sp (strip (rd_time r)) = Inl e"
  shows "date_range sp (row_of r) a = Inr False"
proof -
  from assms have "e = ValueError" by (rule parse_datetime_err)
  with assms show ?thesis
    by (simp add: date_range_def date_range_body_def lookup_row_of ebind_def)
qed

lemma lookup_upd_other: "k \<noteq> ''time'' \<Longrightarrow> lookup (rw(''time'' := c)) k = lookup rw k"
  by (simp add: lookup_def)

lemma mismatch_upd_other:
  "k \<noteq> ''time'' \<Longrightarrow> mismatch crit (rw(''time'' := c)) k = mismatch crit rw k"
  by (simp add: mismatch_def lookup_upd_other)

text \<open>
  Without date criteria the \<open>time\<close> entry of the row is not read and \<open>strptime\<close> is
  not called: the result is the same for every \<open>time\<close> entry, an absent one included,
  and for every \<open>strptime\<close>.
\<close>

lemma should_include_no_dates:
  "start_date a = None \<Longrightarrow> end_date a = None \<Longrightarrow>
     should_include sp' (rw(''time'' := c)) a = should_include sp rw a"
  by (simp add: should_include_def mismatch_upd_other cong: if_cong)

text \<open>
  Claim C2, as the specification states it, fails: a criterion that is the empty text is
  present, yet the source treats it as absent.  With \<open>--site ""\<close> a reading of
  \<open>site_1\<close> is included, although its site is not the empty text.
\<close>

theorem should_include_empty_criterion:
  "should_include strptime_sample
     (row_of \<lparr>rd_time = ''2025-01-01 00:00:00 +0000 UTC'', rd_site = ''site_1'',
              rd_device = ''dev_1'', rd_metric = ''temp'', rd_unit = ''Cel'',
              rd_value = ''10.0''\<rparr>)
     \<lparr>site = Some [], device = None, metric = None, start_date = None, end_date = None\<rparr>
     = Inr True \<and>
   \<not> should_include_spec strptime_sample
     \<lparr>rd_time = ''2025-01-01 00:00:00 +0000 UTC'', rd_site = ''site_1'',
      rd_device = ''dev_1'', rd_metric = ''temp'', rd_unit = ''Cel'',
      rd_value = ''10.0''\<rparr>
     \<lparr>site = Some [], device = None, metric = None, start_date = None, end_date = None\<rparr>"
  by (simp add: should_include_row_of criterion_met_def truthy_def should_include_spec_def
      criterion_ok_def)

text \<open>
  Claim C2, amended.  For every reading and all criteria whose dates are timezone-aware,
  as \<open>parse_arguments\<close> produces them, \<open>should_include\<close> returns true if and only if:
  the site criterion is absent or empty or equal to the reading's site, likewise the
  device and the metric criterion, and, when a start or an end date is present, the
  trimmed time of the reading parses and the parsed time is not before the start and
  not after the end, for each bound that is present.
\<close>

theorem should_include_iff:
  assumes "aware (start_date a)" and "aware (end_date a)"
  shows "should_include sp (row_of r) a =
     Inr (criterion_met (site a) (rd_site r) \<and>
          criterion_met (device a) (rd_device r) \<and>
          criterion_met (metric a) (rd_metric r) \<and>
          (if start_date a \<noteq> None \<or> end_date a \<noteq> None then in_range_spec sp r a else True))"
  unfolding should_include_row_of date_range_row_of [OF assms]
  by auto

theorem should_include_iff_witness:
  "should_include strptime_sample
     (row_of \<lparr>rd_time = '' 2025-01-01 00:05:00 +0000 UTC '', rd_site = ''site_1'',
              rd_device = ''dev_1'', rd_metric = ''temp'', rd_unit = ''Cel'',
              rd_value = ''20.0''\<rparr>)
     \<lparr>site = Some ''site_1'', device = None, metric = Some ''temp'',
      start_date = Some \<lparr>wall = civil 2025 1 1 0 5 0, tzinfo = Some 0\<rparr>,
      end_date = None\<rparr>
     = Inr True"
proof -
  let ?a = "\<lparr>site = Some ''site_1'', device = None, metric = Some ''temp'',
      start_date = Some \<lparr>wall = civil 2025 1 1 0 5 0, tzinfo = Some 0\<rparr>,
      end_date = None\<rparr>"
  have "aware (start_date ?a)" "aware (end_date ?a)" by (simp_all add: aware_def)
  from should_include_iff [OF this]
  show ?thesis
    by (simp add: criterion_met_def truthy_def in_range_spec_def strip_def is_space_def
        parse_datetime_def formats_def strptime_sample_def ensure_utc_def instant_def)
qed

text \<open>
  Claim C4.  For every reading: if a start or an end date is present and the trimmed
  timestamp fails to parse, \<open>should_include\<close> returns false and raises no error; if no
  date is present, the result is decided by the site, device and metric criteria alone,
  whatever the timestamp text and whatever \<open>strptime\<close> would do with it, so the
  timestamp is not parsed and cannot exclude the reading.  Without dates this holds for
  every row: changing or removing its \<open>time\<close> entry and changing \<open>strptime\<close> leaves
  the result as it is.
\<close>

theorem should_include_timestamp_policy:
  "((start_date a \<noteq> None \<or> end_date a \<noteq> None) \<and>
      (\<exists>e. parse_datetime sp (strip (rd_time r)) = Inl e) \<longrightarrow>
        should_include sp (row_of r) a = Inr False) \<and>
   (start_date a = None \<and> end_date a = None \<longrightarrow>
      should_include sp (row_of (r\<lparr>rd_time := t\<rparr>)) a =
        Inr (criterion_met (site a) (rd_site r) \<and>
             criterion_met (device a) (rd_device r) \<and>
             criterion_met (metric a) (rd_metric r)) \<and>
      should_include sp' (rw(''time'' := c)) a = should_include sp rw a)"
  by (auto simp: should_include_row_of date_range_unparsable should_include_no_dates)

theorem should_include_timestamp_policy_witness:
  "should_include strptime_sample
     (row_of \<lparr>rd_time = ''yesterday'', rd_site = ''site_1'', rd_device = ''dev_1'',
              rd_metric = ''temp'', rd_unit = ''Cel'', rd_value = ''10.0''\<rparr>)
     \<lparr>site = None, device = None, metric = None,
      start_date = Some \<lparr>wall = civil 2025 1 1 0 0 0, tzinfo = Some 0\<rparr>,
      end_date = None\<rparr> = Inr False \<and>
   should_include strptime_sample
     (row_of \<lparr>rd_time = ''yesterday'', rd_site = ''site_1'', rd_device = ''dev_1'',
              rd_metric = ''temp'', rd_unit = ''Cel'', rd_value = ''10.0''\<rparr>)
     \<lparr>site = None, device = None, metric = None, start_date = None, end_date = None\<rparr>
     = Inr True"
proof -
  let ?r = "\<lparr>rd_time = ''yesterday'', rd_site = ''site_1'', rd_device = ''dev_1'',
              rd_metric = ''temp'', rd_unit = ''Cel'', rd_value = ''10.0''\<rparr>"
  let ?a = "\<lparr>site = None, device = None, metric = None,
      start_date = Some \<lparr>wall = civil 2025 1 1 0 0 0, tzinfo = Some 0\<rparr>,
      end_date = None\<rparr>"
  let ?b = "\<lparr>site = None, device = None, metric = None, start_date = None,
      end_date = None :: datetime option\<rparr>"
  have p: "parse_datetime strptime_sample (strip (rd_time ?r)) = Inl ValueError"
    by (simp add: strip_def is_space_def parse_datetime_def formats_def strptime_sample_def)
  have 1: "should_include strptime_sample (row_of ?r) ?a = Inr False"
    using should_include_timestamp_policy [of ?a strptime_sample ?r] p by simp
  have 2: "should_include strptime_sample (row_of ?r) ?b = Inr True"
    using should_include_timestamp_policy [of ?b strptime_sample ?r "''yesterday''"]
    by (simp add: criterion_met_def truthy_def)
  from 1 2 show ?thesis by simp
qed

section \<open>The aggregation loop\<close>

lemma convert_to_float_Some:
  "convert_to_float cell = Inr (Some v) \<Longrightarrow>
     \<exists>s. cell = Some s \<and> strip s \<noteq> [] \<and> py_float (strip s) = Inr v"
  by (auto simp: convert_to_float_def split: option.splits if_splits sum.splits pyerr.splits)

lemma stored_append_value: "stored (append_value aggs k x) = insert (k, x) (stored aggs)"
proof (induction aggs)
  case Nil
  show ?case by (auto simp: stored_def)
next
  case (Cons p aggs)
  obtain k' vs where p: "p = (k', vs)" by (cases p)
  have split: "\<And>q qs. stored (q # qs) = {(k, v). k = fst q \<and> v \<in> set (snd q)} \<union> stored qs"
    by (auto simp: stored_def)
  show ?case
  proof (cases "k' = k")
    case True
    then show ?thesis unfolding p by (auto simp: split)
  next
    case False
    then show ?thesis unfolding p using Cons.IH by (auto simp: split)
  qed
qed

text \<open>One pass of the loop body stores the contribution of the row, and nothing else.\<close>

lemma process_row_stored:
  assumes "process_row sp a aggs rw = Inr aggs'"
  shows "stored aggs' = stored aggs \<union> {(k, v). contributes sp a rw k v}"
proof (cases "should_include sp rw a")
  case (Inl e)
  with assms show ?thesis by (simp add: process_row_def ebind_def)
next
  case (Inr inc)
  show ?thesis
  proof (cases inc)
    case False
    with Inr assms show ?thesis by (auto simp: process_row_def ebind_def contributes_def)
  next
    case True
    with Inr assms obtain d s m cell v where
      f: "lookup rw ''device'' = Inr d" "lookup rw ''site'' = Inr s"
         "lookup rw ''metric'' = Inr m" "lookup rw ''value'' = Inr cell"
         "convert_to_float cell = Inr v"
      and r: "aggs' = (case v of None \<Rightarrow> aggs | Some x \<Rightarrow> append_value aggs (d, s, m) x)"
      by (auto simp: process_row_def ebind_def split: sum.splits option.splits)
    show ?thesis
    proof (cases v)
      case None
      with r f Inr True show ?thesis by (auto simp: contributes_def)
    next
      case (Some x)
      with r have "stored aggs' = insert ((d, s, m), x) (stored aggs)"
        by (simp add: stored_append_value)
      moreover have "{(k, v). contributes sp a rw k v} = {((d, s, m), x)}"
        using f Inr True Some by (auto simp: contributes_def)
      ultimately show ?thesis by auto
    qed
  qed
qed

lemma aggregate_stored:
  "aggregate sp a aggs rws = Inr aggs' \<Longrightarrow>
     stored aggs' = stored aggs \<union> {(k, v). \<exists>rw\<in>set rws. contributes sp a rw k v}"
proof (induction rws arbitrary: aggs)
  case Nil
  then show ?case by simp
next
  case (Cons rw rws)
  from Cons.prems obtain mid where
    m: "process_row sp a aggs rw = Inr mid" "aggregate sp a mid rws = Inr aggs'"
    by (auto simp: ebind_def split: sum.splits)
  from Cons.IH [OF m(2)] process_row_stored [OF m(1)] show ?case by auto
qed

text \<open>
  Claim C3, as the specification states it, fails in its last part: \<open>float\<close> accepts
  the text \<open>inf\<close>, so a row with this value stores the infinite number in its group.
\<close>

theorem aggregate_stores_inf:
  "aggregate strptime_sample
     \<lparr>site = None, device = None, metric = None, start_date = None, end_date = None\<rparr> []
     [row_of \<lparr>rd_time = ''2025-01-01 00:00:00 +0000 UTC'', rd_site = ''site_1'',
              rd_device = ''dev_1'', rd_metric = ''temp'', rd_unit = ''Cel'',
              rd_value = ''inf''\<rparr>]
     = Inr [((Some ''dev_1'', Some ''site_1'', Some ''temp''), [PInf])] \<and>
   \<not> is_finite PInf"
proof -
  have "convert_to_float (Some ''inf'') = Inr (Some PInf)"
    by (simp add: convert_to_float_def strip_def is_space_def py_float_def sign_of_def lower_def)
  then show ?thesis
    by (simp add: process_row_def should_include_row_of criterion_met_def truthy_def
        lookup_row_of ebind_def)
qed

text \<open>
  Claim C3, amended.  For every run that reads its rows to the end, the values stored in
  the groups are exactly the contributions of the rows: a value \<open>v\<close> is stored under a
  key if and only if some input row passes the filter, has this key, and
  \<open>convert_to_float\<close> returns \<open>v\<close> for its value cell.  Such a value is the number that
  \<open>float\<close> parsed from the trimmed, non-empty value text (it may be infinite or
  \<open>nan\<close>); a row whose value is \<open>None\<close>, empty or unparsable stores nothing, and no
  placeholder is ever stored.
\<close>

theorem aggregate_stores_parsed_values:
  assumes "aggregate sp a [] rws = Inr aggs"
  shows "stored aggs = {(k, v). \<exists>rw\<in>set rws. contributes sp a rw k v} \<and>
     (\<forall>k v. (k, v) \<in> stored aggs \<longrightarrow>
        (\<exists>rw\<in>set rws. \<exists>s. should_include sp rw a = Inr True \<and>
            rw ''value'' = Some (Some s) \<and> strip s \<noteq> [] \<and> py_float (strip s) = Inr v))"
proof (intro conjI allI impI)
  have "stored ([] :: aggregations) = {}" by (simp add: stored_def)
  with aggregate_stored [OF assms]
  show eq: "stored aggs = {(k, v). \<exists>rw\<in>set rws. contributes sp a rw k v}" by simp
  fix k v
  assume "(k, v) \<in> stored aggs"
  with eq obtain rw where rw: "rw \<in> set rws" "contributes sp a rw k v" by auto
  then obtain cell where
    c: "should_include sp rw a = Inr True" "lookup rw ''value'' = Inr cell"
       "convert_to_float cell = Inr (Some v)"
    by (auto simp: contributes_def)
  from convert_to_float_Some [OF c(3)] obtain s where
    s: "cell = Some s" "strip s \<noteq> []" "py_float (strip s) = Inr v" by blast
  from c(2) s(1) have "rw ''value'' = Some (Some s)"
    by (auto simp: lookup_def split: option.splits)
  with rw(1) c(1) s show "\<exists>rw\<in>set rws. \<exists>s. should_include sp rw a = Inr True \<and>
              rw ''value'' = Some (Some s) \<and> strip s \<noteq> [] \<and> py_float (strip s) = Inr v"
    by blast
qed

lemma aggregate_example:
  "aggregate strptime_sample
     \<lparr>site = None, device = None, metric = None, start_date = None, end_date = None\<rparr> []
     [row_of \<lparr>rd_time = ''2025-01-01 00:00:00 +0000 UTC'', rd_site = ''site_1'',
              rd_device = ''dev_1'', rd_metric = ''temp'', rd_unit = ''Cel'',
              rd_value = ''10.0''\<rparr>,
      row_of \<lparr>rd_time = ''2025-01-01 00:05:00 +0000 UTC'', rd_site = ''site_1'',
              rd_device = ''dev_1'', rd_metric = ''temp'', rd_unit = ''Cel'',
              rd_value = []\<rparr>,
      row_of \<lparr>rd_time = ''2025-01-01 00:05:00 +0000 UTC'', rd_site = ''site_1'',
              rd_device = ''dev_1'', rd_metric = ''temp'', rd_unit = ''Cel'',
              rd_value = ''n/a''\<rparr>,
      row_of \<lparr>rd_time = ''2025-01-01 00:10:00 +0000 UTC'', rd_site = ''site_1'',
              rd_device = ''dev_1'', rd_metric = ''temp'', rd_unit = ''Cel'',
              rd_value = '' 30.0''\<rparr>]
     = Inr [((Some ''dev_1'', Some ''site_1'', Some ''temp''), [Finite 10, Finite 30])]"
  by code_simp

theorem aggregate_stores_parsed_values_witness:
  "\<exists>rw\<in>set
       [row_of \<lparr>rd_time = ''2025-01-01 00:00:00 +0000 UTC'', rd_site = ''site_1'',
                rd_device = ''dev_1'', rd_metric = ''temp'', rd_unit = ''Cel'',
                rd_value = ''10.0''\<rparr>,
        row_of \<lparr>rd_time = ''2025-01-01 00:05:00 +0000 UTC'', rd_site = ''site_1'',
                rd_device = ''dev_1'', rd_metric = ''temp'', rd_unit = ''Cel'',
                rd_value = []\<rparr>,
        row_of \<lparr>rd_time = ''2025-01-01 00:05:00 +0000 UTC'', rd_site = ''site_1'',
                rd_device = ''dev_1'', rd_metric = ''temp'', rd_unit = ''Cel'',
                rd_value = ''n/a''\<rparr>,
        row_of \<lparr>rd_time = ''2025-01-01 00:10:00 +0000 UTC'', rd_site = ''site_1'',
                rd_device = ''dev_1'', rd_metric = ''temp'', rd_unit = ''Cel'',
                rd_value = '' 30.0''\<rparr>].
     \<exists>s. should_include strptime_sample rw
            \<lparr>site = None, device = None, metric = None, start_date = None,
             end_date = None\<rparr> = Inr True \<and>
         rw ''value'' = Some (Some s) \<and> strip s \<noteq> [] \<and> py_float (strip s) = Inr (Finite 30)"
proof -
  have "((Some ''dev_1'', Some ''site_1'', Some ''temp''), Finite 30)
      \<in> stored [((Some ''dev_1'', Some ''site_1'', Some ''temp''), [Finite 10, Finite 30])]"
    by (simp add: stored_def)
  with aggregate_stores_parsed_values [OF aggregate_example]
  show ?thesis by blast
qed

text \<open>
  The loop reads every list of readings to the end when the date criteria are
  timezone-aware: no row of the data model makes the run fail.
\<close>

lemma convert_to_float_defined: "\<exists>v. convert_to_float cell = Inr v"
  by (auto simp: convert_to_float_def split: option.splits sum.splits pyerr.splits
      dest: py_float_err)

lemma process_row_reading:
  assumes "aware (start_date a)" "aware (end_date a)"
  shows "\<exists>aggs'. process_row sp a aggs (row_of r) = Inr aggs'"
proof -
  have "\<exists>b. should_include sp (row_of r) a = Inr b"
    unfolding should_include_row_of date_range_row_of [OF assms] by auto
  then obtain b where b: "should_include sp (row_of r) a = Inr b" ..
  obtain v where v: "convert_to_float (Some (rd_value r)) = Inr v"
    using convert_to_float_defined by blast
  show ?thesis
    by (cases v) (simp_all add: process_row_def b v lookup_row_of ebind_def)
qed

lemma aggregate_readings:
  assumes "aware (start_date a)" "aware (end_date a)"
  shows "\<exists>aggs'. aggregate sp a aggs (map row_of rs) = Inr aggs'"
proof (induction rs arbitrary: aggs)
  case Nil
  show ?case by simp
next
  case (Cons r rs)
  obtain mid where "process_row sp a aggs (row_of r) = Inr mid"
    using process_row_reading [OF assms] by blast
  with Cons.IH [of mid] show ?case by (simp add: ebind_def)
qed

section \<open>The ranking\<close>

lemma flt_less_le:
  "a \<noteq> NaN \<Longrightarrow> b \<noteq> NaN \<Longrightarrow> c \<noteq> NaN \<Longrightarrow> flt a b \<Longrightarrow> \<not> flt c b \<Longrightarrow> flt a c"
  by (cases a; cases b; cases c) auto

lemma flt_le_le:
  "a \<noteq> NaN \<Longrightarrow> b \<noteq> NaN \<Longrightarrow> c \<noteq> NaN \<Longrightarrow> \<not> flt a b \<Longrightarrow> \<not> flt b c \<Longrightarrow> \<not> flt a c"
  by (cases a; cases b; cases c) auto

lemma flt_asym: "flt a b \<Longrightarrow> \<not> flt b a"
  by (cases a; cases b) auto

declare bisect_right.simps [simp del]

text \<open>
  On an ascending list of keys without \<open>nan\<close>, \<open>bisect_right\<close> returns the position
  after the last key that is not greater than \<open>x\<close>.
\<close>

lemma bisect_right_position:
  "x \<noteq> NaN \<Longrightarrow> NaN \<notin> set ks \<Longrightarrow> sorted_wrt (\<lambda>a b. \<not> flt b a) ks \<Longrightarrow>
   l \<le> r \<Longrightarrow> r \<le> length ks \<Longrightarrow>
   (\<forall>j<l. \<not> flt x (ks ! j)) \<Longrightarrow> (\<forall>j. r \<le> j \<longrightarrow> j < length ks \<longrightarrow> flt x (ks ! j)) \<Longrightarrow>
   l \<le> bisect_right ks x l r \<and> bisect_right ks x l r \<le> r \<and>
   (\<forall>j<bisect_right ks x l r. \<not> flt x (ks ! j)) \<and>
   (\<forall>j. bisect_right ks x l r \<le> j \<longrightarrow> j < length ks \<longrightarrow> flt x (ks ! j))"
proof (induction ks x l r rule: bisect_right.induct)
  case (1 ks x l r)
  note nan = "1.prems"(1,2) and srt = "1.prems"(3)
  have ord: "\<And>i j. i < j \<Longrightarrow> j < length ks \<Longrightarrow> \<not> flt (ks ! j) (ks ! i)"
    using srt by (simp add: sorted_wrt_iff_nth_less)
  have nn: "\<And>j. j < length ks \<Longrightarrow> ks ! j \<noteq> NaN"
    using nan(2) by (metis nth_mem)
  show ?case
  proof (cases "l < r")
    case False
    then have "bisect_right ks x l r = l" by (subst bisect_right.simps) simp
    with False "1.prems" show ?thesis by simp
  next
    case True
    define p where "p = l + (r - l) div 2"
    have p: "l \<le> p" "p < r" "p < length ks"
      using True "1.prems"(5) by (auto simp: p_def)
    show ?thesis
    proof (cases "flt x (ks ! p)")
      case flt: True
      have up: "\<forall>j. p \<le> j \<longrightarrow> j < length ks \<longrightarrow> flt x (ks ! j)"
      proof (intro allI impI)
        fix j assume j: "p \<le> j" "j < length ks"
        show "flt x (ks ! j)"
        proof (cases "j = p")
          case True then show ?thesis using flt by simp
        next
          case False
          with j have "p < j" by simp
          from ord [OF this j(2)] have "\<not> flt (ks ! j) (ks ! p)" .
          with flt show ?thesis
            using flt_less_le [of x "ks ! p" "ks ! j"] nan(1) nn [OF p(3)] nn [OF j(2)] by blast
        qed
      qed
      have eq: "bisect_right ks x l r = bisect_right ks x l p"
        using True flt by (subst bisect_right.simps) (simp add: p_def Let_def)
      have "l \<le> bisect_right ks x l p \<and> bisect_right ks x l p \<le> p \<and>
          (\<forall>j<bisect_right ks x l p. \<not> flt x (ks ! j)) \<and>
          (\<forall>j. bisect_right ks x l p \<le> j \<longrightarrow> j < length ks \<longrightarrow> flt x (ks ! j))"
        using "1.IH"(1) [OF True p_def flt nan srt p(1) _ "1.prems"(6) up] p(3) by simp
      with p(2) show ?thesis unfolding eq by auto
    next
      case nflt: False
      have low: "\<forall>j<p + 1. \<not> flt x (ks ! j)"
      proof (intro allI impI)
        fix j assume j: "j < p + 1"
        show "\<not> flt x (ks ! j)"
        proof (cases "j = p")
          case True then show ?thesis using nflt by simp
        next
          case False
          with j have jp: "j < p" by simp
          from ord [OF this p(3)] have "\<not> flt (ks ! p) (ks ! j)" .
          with nflt show ?thesis
            using flt_le_le [of x "ks ! p" "ks ! j"] nan(1) nn [OF p(3)] nn [of j] jp p(3)
            by auto
        qed
      qed
      have eq: "bisect_right ks x l r = bisect_right ks x (p + 1) r"
        using True nflt by (subst bisect_right.simps) (simp add: p_def Let_def)
      have "p + 1 \<le> bisect_right ks x (p + 1) r \<and> bisect_right ks x (p + 1) r \<le> r \<and>
          (\<forall>j<bisect_right ks x (p + 1) r. \<not> flt x (ks ! j)) \<and>
          (\<forall>j. bisect_right ks x (p + 1) r \<le> j \<longrightarrow> j < length ks \<longrightarrow> flt x (ks ! j))"
        using "1.IH"(2) [OF True p_def nflt nan srt _ "1.prems"(5) low "1.prems"(7)] p(2)
        by simp
      with p(1) show ?thesis unfolding eq by auto
    qed
  qed
qed

lemma bisect_right_bound: "l \<le> r \<Longrightarrow> bisect_right ks x l r \<le> r"
proof (induction ks x l r rule: bisect_right.induct)
  case (1 ks x l r)
  show ?case
  proof (cases "l < r")
    case False
    then have "bisect_right ks x l r = l" by (subst bisect_right.simps) simp
    with "1.prems" show ?thesis by simp
  next
    case True
    define p where "p = l + (r - l) div 2"
    have p: "l \<le> p" "p < r" using True by (auto simp: p_def)
    show ?thesis
    proof (cases "flt x (ks ! p)")
      case flt: True
      have "bisect_right ks x l r = bisect_right ks x l p"
        using True flt by (subst bisect_right.simps) (simp add: p_def Let_def)
      with "1.IH"(1) [OF True p_def flt p(1)] p(2) show ?thesis by simp
    next
      case nflt: False
      have "bisect_right ks x l r = bisect_right ks x (p + 1) r"
        using True nflt by (subst bisect_right.simps) (simp add: p_def Let_def)
      with "1.IH"(2) [OF True p_def nflt] p(2) show ?thesis by simp
    qed
  qed
qed

lemma length_binary_insert: "length (binary_insert f acc x) = Suc (length acc)"
  by (simp add: binary_insert_def Let_def)

lemma set_binary_insert: "set (binary_insert f acc x) = insert x (set acc)"
proof -
  have "set (take i acc) \<union> set (drop i acc) = set acc" for i
    by (metis append_take_drop_id set_append)
  then show ?thesis by (auto simp: binary_insert_def Let_def)
qed

lemma length_py_sort_acc: "length (foldl (binary_insert f) acc xs) = length acc + length xs"
  by (induction xs arbitrary: acc) (simp_all add: length_binary_insert)

lemma set_py_sort_acc: "set (foldl (binary_insert f) acc xs) = set acc \<union> set xs"
  by (induction xs arbitrary: acc) (auto simp: set_binary_insert)

lemma length_sorted_reverse: "length (sorted_reverse f xs) = length xs"
  by (simp add: sorted_reverse_def py_sort_def length_py_sort_acc)

lemma set_sorted_reverse: "set (sorted_reverse f xs) = set xs"
  by (simp add: sorted_reverse_def py_sort_def set_py_sort_acc)

lemma binary_insert_ascending:
  assumes "f x \<noteq> NaN" "NaN \<notin> f ` set acc"
    and "sorted_wrt (\<lambda>a b. \<not> flt (f b) (f a)) acc"
  shows "sorted_wrt (\<lambda>a b. \<not> flt (f b) (f a)) (binary_insert f acc x)"
proof -
  define ks where "ks = map f acc"
  define i where "i = bisect_right ks (f x) 0 (length acc)"
  have srt: "sorted_wrt (\<lambda>a b. \<not> flt b a) ks"
    using assms(3) by (simp add: ks_def sorted_wrt_map)
  have "NaN \<notin> set ks" using assms(2) by (simp add: ks_def)
  from bisect_right_position [OF assms(1) this srt, of 0 "length acc"]
  have i: "i \<le> length acc" "\<forall>j<i. \<not> flt (f x) (ks ! j)"
    "\<forall>j. i \<le> j \<longrightarrow> j < length ks \<longrightarrow> flt (f x) (ks ! j)"
    by (auto simp: i_def ks_def)
  have i2: "\<not> flt (f x) (f (acc ! j))" if "j < i" for j
  proof -
    from that i(1) have "j < length acc" by simp
    then have "ks ! j = f (acc ! j)" by (simp add: ks_def)
    with i(2) that show ?thesis by metis
  qed
  have i3: "flt (f x) (f (acc ! j))" if "i \<le> j" "j < length acc" for j
  proof -
    from that have "ks ! j = f (acc ! j)" "j < length ks" by (simp_all add: ks_def)
    with i(3) that show ?thesis by metis
  qed
  have before: "\<not> flt (f x) (f a)" if "a \<in> set (take i acc)" for a
  proof -
    from that obtain j where j: "j < length (take i acc)" "a = take i acc ! j"
      by (metis in_set_conv_nth)
    then have "j < i" "a = acc ! j" by simp_all
    with i2 show ?thesis by simp
  qed
  have after: "\<not> flt (f b) (f x)" if "b \<in> set (drop i acc)" for b
  proof -
    from that obtain j where j: "j < length (drop i acc)" "b = drop i acc ! j"
      by (metis in_set_conv_nth)
    then have "i + j < length acc" "b = acc ! (i + j)" by simp_all
    with i3 [of "i + j"] have "flt (f x) (f b)" by simp
    then show ?thesis by (rule flt_asym)
  qed
  have parts: "sorted_wrt (\<lambda>a b. \<not> flt (f b) (f a)) (take i acc)"
    "sorted_wrt (\<lambda>a b. \<not> flt (f b) (f a)) (drop i acc)"
    using assms(3) by (simp_all add: sorted_wrt_take sorted_wrt_drop)
  have cross: "\<not> flt (f b) (f a)" if "a \<in> set (take i acc)" "b \<in> set (drop i acc)" for a b
    using assms(3) that
    by (metis append_take_drop_id sorted_wrt_append)
  show ?thesis
    unfolding binary_insert_def Let_def ks_def [symmetric] i_def [symmetric]
    using parts before after cross by (auto simp: sorted_wrt_append)
qed

lemma py_sort_acc_ascending:
  "NaN \<notin> f ` set acc \<Longrightarrow> NaN \<notin> f ` set xs \<Longrightarrow>
   sorted_wrt (\<lambda>a b. \<not> flt (f b) (f a)) acc \<Longrightarrow>
   sorted_wrt (\<lambda>a b. \<not> flt (f b) (f a)) (foldl (binary_insert f) acc xs)"
proof (induction xs arbitrary: acc)
  case Nil
  then show ?case by simp
next
  case (Cons x xs)
  have "sorted_wrt (\<lambda>a b. \<not> flt (f b) (f a)) (binary_insert f acc x)"
    using Cons.prems by (intro binary_insert_ascending) auto
  moreover have "NaN \<notin> f ` set (binary_insert f acc x)"
    using Cons.prems by (auto simp: set_binary_insert)
  ultimately show ?case using Cons.IH [of "binary_insert f acc x"] Cons.prems by simp
qed

lemma sorted_reverse_descending:
  assumes "NaN \<notin> f ` set xs"
  shows "descending_by f (sorted_reverse f xs)"
proof -
  have "sorted_wrt (\<lambda>a b. \<not> flt (f b) (f a)) (py_sort f (rev xs))"
    unfolding py_sort_def using assms by (intro py_sort_acc_ascending) auto
  then have "sorted_wrt (\<lambda>a b. \<not> flt (f a) (f b)) (sorted_reverse f xs)"
    by (simp add: sorted_reverse_def sorted_wrt_rev)
  moreover have "\<forall>a\<in>set (sorted_reverse f xs). f a \<noteq> NaN"
    using assms unfolding set_sorted_reverse by (metis image_eqI)
  ultimately show ?thesis
    unfolding descending_by_def fge_def
    by (auto intro: sorted_wrt_mono_rel [rotated])
qed

lemma descending_by_take: "descending_by f xs \<Longrightarrow> descending_by f (take n xs)"
  by (simp add: descending_by_def sorted_wrt_take)

lemma compute_statistics_single:
  "compute_statistics [Some x] =
     Inr \<lparr>average = x, min_value = x, max_value = x, count = 1, std_dev = Finite 0\<rparr>"
  by (cases x) (simp_all add: compute_statistics_def truediv_def py_sum_def py_min_def
      py_max_def ebind_def)

text \<open>
  Claim C8, as the specification states it, fails for a mapping with a \<open>nan\<close>
  statistic, which three rows with the values \<open>1.0\<close>, \<open>nan\<close> and \<open>2.0\<close> in three groups
  produce: no comparison with \<open>nan\<close> is true, the sort leaves the three groups in
  their order, and the group of average 1.0 is ranked above the group of average 2.0.
\<close>

theorem top_by_avg_nan_unsorted:
  "main_report strptime_sample
     \<lparr>site = None, device = None, metric = None, start_date = None, end_date = None\<rparr>
     [row_of \<lparr>rd_time = ''2025-01-01 00:00:00 +0000 UTC'', rd_site = ''site_1'',
              rd_device = ''dev_1'', rd_metric = ''temp'', rd_unit = ''Cel'',
              rd_value = ''1.0''\<rparr>,
      row_of \<lparr>rd_time = ''2025-01-01 00:00:00 +0000 UTC'', rd_site = ''site_1'',
              rd_device = ''dev_2'', rd_metric = ''temp'', rd_unit = ''Cel'',
              rd_value = ''nan''\<rparr>,
      row_of \<lparr>rd_time = ''2025-01-01 00:00:00 +0000 UTC'', rd_site = ''site_1'',
              rd_device = ''dev_3'', rd_metric = ''temp'', rd_unit = ''Cel'',
              rd_value = ''2.0''\<rparr>]
   = Inr ([((Some ''dev_1'', Some ''site_1'', Some ''temp''),
             \<lparr>average = Finite 1, min_value = Finite 1, max_value = Finite 1, count = 1,
              std_dev = Finite 0\<rparr>),
           ((Some ''dev_2'', Some ''site_1'', Some ''temp''),
             \<lparr>average = NaN, min_value = NaN, max_value = NaN, count = 1,
              std_dev = Finite 0\<rparr>),
           ((Some ''dev_3'', Some ''site_1'', Some ''temp''),
             \<lparr>average = Finite 2, min_value = Finite 2, max_value = Finite 2, count = 1,
              std_dev = Finite 0\<rparr>)],
          [((Some ''dev_1'', Some ''site_1'', Some ''temp''),
             \<lparr>average = Finite 1, min_value = Finite 1, max_value = Finite 1, count = 1,
              std_dev = Finite 0\<rparr>),
           ((Some ''dev_2'', Some ''site_1'', Some ''temp''),
             \<lparr>average = NaN, min_value = NaN, max_value = NaN, count = 1,
              std_dev = Finite 0\<rparr>),
           ((Some ''dev_3'', Some ''site_1'', Some ''temp''),
             \<lparr>average = Finite 2, min_value = Finite 2, max_value = Finite 2, count = 1,
              std_dev = Finite 0\<rparr>)],
          [((Some ''dev_1'', Some ''site_1'', Some ''temp''),
             \<lparr>average = Finite 1, min_value = Finite 1, max_value = Finite 1, count = 1,
              std_dev = Finite 0\<rparr>),
           ((Some ''dev_2'', Some ''site_1'', Some ''temp''),
             \<lparr>average = NaN, min_value = NaN, max_value = NaN, count = 1,
              std_dev = Finite 0\<rparr>),
           ((Some ''dev_3'', Some ''site_1'', Some ''temp''),
             \<lparr>average = Finite 2, min_value = Finite 2, max_value = Finite 2, count = 1,
              std_dev = Finite 0\<rparr>)]) \<and>
   \<not> descending_by (\<lambda>e. average (snd e))
       [((Some ''dev_1'', Some ''site_1'', Some ''temp''),
          \<lparr>average = Finite 1, min_value = Finite 1, max_value = Finite 1, count = 1,
           std_dev = Finite 0\<rparr>),
        ((Some ''dev_2'', Some ''site_1'', Some ''temp''),
          \<lparr>average = NaN, min_value = NaN, max_value = NaN, count = 1,
           std_dev = Finite 0\<rparr>),
        ((Some ''dev_3'', Some ''site_1'', Some ''temp''),
          \<lparr>average = Finite 2, min_value = Finite 2, max_value = Finite 2, count = 1,
           std_dev = Finite 0\<rparr>)]"
proof -
  let ?k1 = "(Some ''dev_1'', Some ''site_1'', Some ''temp'')"
  let ?k2 = "(Some ''dev_2'', Some ''site_1'', Some ''temp'')"
  let ?k3 = "(Some ''dev_3'', Some ''site_1'', Some ''temp'')"
  let ?S = "[(?k1, \<lparr>average = Finite 1, min_value = Finite 1, max_value = Finite 1, count = 1,
                   std_dev = Finite 0\<rparr>),
             (?k2, \<lparr>average = NaN, min_value = NaN, max_value = NaN, count = 1,
                   std_dev = Finite 0\<rparr>),
             (?k3, \<lparr>average = Finite 2, min_value = Finite 2, max_value = Finite 2, count = 1,
                   std_dev = Finite 0\<rparr>)]"
  have agg: "aggregate strptime_sample
     \<lparr>site = None, device = None, metric = None, start_date = None, end_date = None\<rparr> []
     [row_of \<lparr>rd_time = ''2025-01-01 00:00:00 +0000 UTC'', rd_site = ''site_1'',
              rd_device = ''dev_1'', rd_metric = ''temp'', rd_unit = ''Cel'',
              rd_value = ''1.0''\<rparr>,
      row_of \<lparr>rd_time = ''2025-01-01 00:00:00 +0000 UTC'', rd_site = ''site_1'',
              rd_device = ''dev_2'', rd_metric = ''temp'', rd_unit = ''Cel'',
              rd_value = ''nan''\<rparr>,
      row_of \<lparr>rd_time = ''2025-01-01 00:00:00 +0000 UTC'', rd_site = ''site_1'',
              rd_device = ''dev_3'', rd_metric = ''temp'', rd_unit = ''Cel'',
              rd_value = ''2.0''\<rparr>]
     = Inr [(?k1, [Finite 1]), (?k2, [NaN]), (?k3, [Finite 2])]"
    by code_simp
  have st: "stats_of [(?k1, [Finite 1]), (?k2, [NaN]), (?k3, [Finite 2])] = Inr ?S"
    by (simp add: compute_statistics_single ebind_def)
  have avg: "top_by_avg ?S = ?S"
    by code_simp
  have sd: "top_by_stddev ?S = ?S"
    by code_simp
  have nd: "\<not> descending_by (\<lambda>e. average (snd e)) ?S"
    by (simp add: descending_by_def fge_def)
  show ?thesis
    unfolding main_report_def agg
    by (simp only: ebind_def sum.case st avg sd nd) simp
qed

text \<open>
  Claim C8, amended.  For every mapping of group keys to statistics, each of the two top
  lists has length exactly min(10, number of groups), so fewer than ten groups give a
  shorter list and never an error, and holds entries of the mapping only; the
  top-by-average list is in descending order of the average when no average is
  \<open>nan\<close>, and the top-by-stddev list is in descending order of the std_dev when no
  std_dev is \<open>nan\<close>.
\<close>

theorem top_lists_sorted:
  "length (top_by_avg stats) = min 10 (length stats) \<and>
   length (top_by_stddev stats) = min 10 (length stats) \<and>
   set (top_by_avg stats) \<subseteq> set stats \<and>
   set (top_by_stddev stats) \<subseteq> set stats \<and>
   ((\<forall>e\<in>set stats. average (snd e) \<noteq> NaN) \<longrightarrow>
      descending_by (\<lambda>e. average (snd e)) (top_by_avg stats)) \<and>
   ((\<forall>e\<in>set stats. std_dev (snd e) \<noteq> NaN) \<longrightarrow>
      descending_by (\<lambda>e. std_dev (snd e)) (top_by_stddev stats))"
proof (intro conjI impI)
  show "length (top_by_avg stats) = min 10 (length stats)"
    by (simp add: top_by_avg_def length_sorted_reverse min.commute)
  show "length (top_by_stddev stats) = min 10 (length stats)"
    by (simp add: top_by_stddev_def length_sorted_reverse min.commute)
  show "set (top_by_avg stats) \<subseteq> set stats"
    unfolding top_by_avg_def using set_take_subset [of 10] set_sorted_reverse by fastforce
  show "set (top_by_stddev stats) \<subseteq> set stats"
    unfolding top_by_stddev_def using set_take_subset [of 10] set_sorted_reverse by fastforce
next
  assume "\<forall>e\<in>set stats. average (snd e) \<noteq> NaN"
  then have "NaN \<notin> (\<lambda>e. average (snd e)) ` set stats" by force
  then show "descending_by (\<lambda>e. average (snd e)) (top_by_avg stats)"
    unfolding top_by_avg_def by (intro descending_by_take sorted_reverse_descending)
next
  assume "\<forall>e\<in>set stats. std_dev (snd e) \<noteq> NaN"
  then have "NaN \<notin> (\<lambda>e. std_dev (snd e)) ` set stats" by force
  then show "descending_by (\<lambda>e. std_dev (snd e)) (top_by_stddev stats)"
    unfolding top_by_stddev_def by (intro descending_by_take sorted_reverse_descending)
qed

theorem top_lists_sorted_witness:
  "descending_by (\<lambda>e. average (snd e))
     (top_by_avg
        [((Some ''dev_1'', Some ''site_1'', Some ''temp''),
           \<lparr>average = Finite 20, min_value = Finite 10, max_value = Finite 30, count = 3,
            std_dev = Finite (sqrt (200 / 3))\<rparr>),
         ((Some ''dev_2'', Some ''site_2'', Some ''humidity''),
           \<lparr>average = Finite (105 / 2), min_value = Finite 50, max_value = Finite 55,
            count = 2, std_dev = Finite (5 / 2)\<rparr>)]) \<and>
   length (top_by_stddev
        [((Some ''dev_1'', Some ''site_1'', Some ''temp''),
           \<lparr>average = Finite 20, min_value = Finite 10, max_value = Finite 30, count = 3,
            std_dev = Finite (sqrt (200 / 3))\<rparr>),
         ((Some ''dev_2'', Some ''site_2'', Some ''humidity''),
           \<lparr>average = Finite (105 / 2), min_value = Finite 50, max_value = Finite 55,
            count = 2, std_dev = Finite (5 / 2)\<rparr>)]) = 2"
  using top_lists_sorted
    [of "[((Some ''dev_1'', Some ''site_1'', Some ''temp''),
           \<lparr>average = Finite 20, min_value = Finite 10, max_value = Finite 30, count = 3,
            std_dev = Finite (sqrt (200 / 3))\<rparr>),
         ((Some ''dev_2'', Some ''site_2'', Some ''humidity''),
           \<lparr>average = Finite (105 / 2), min_value = Finite 50, max_value = Finite 55,
            count = 2, std_dev = Finite (5 / 2)\<rparr>)]"]
  by simp


text \<open>
  When every stored value is finite, no statistic is \<open>nan\<close>, and both top lists of the
  run are in descending order.
\<close>

lemma finite_values: "(\<And>v. v \<in> set vs \<Longrightarrow> is_finite v) \<Longrightarrow> \<exists>xs. vs = map Finite xs"
proof (induction vs)
  case Nil
  show ?case by simp
next
  case (Cons v vs)
  then obtain xs where "vs = map Finite xs" by auto
  moreover from Cons.prems [of v] obtain x where "v = Finite x" by (cases v) auto
  ultimately have "v # vs = map Finite (x # xs)" by simp
  then show ?case ..
qed

lemma compute_statistics_finite_fields:
  assumes "\<And>v. v \<in> set vs \<Longrightarrow> is_finite v"
  shows "\<exists>st. compute_statistics (map Some vs) = Inr st \<and>
           is_finite (average st) \<and> is_finite (std_dev st)"
proof -
  from finite_values [OF assms] obtain xs where xs: "vs = map Finite xs" by blast
  show ?thesis
  proof (cases "xs = []")
    case True
    with xs show ?thesis by (simp add: compute_statistics_def)
  next
    case False
    from compute_statistics_Finite [OF False] xs show ?thesis by (simp add: comp_def)
  qed
qed

lemma stats_of_finite:
  "(\<And>k vs v. (k, vs) \<in> set aggs \<Longrightarrow> v \<in> set vs \<Longrightarrow> is_finite v) \<Longrightarrow>
   \<exists>stats. stats_of aggs = Inr stats \<and> length stats = length aggs \<and>
     (\<forall>e\<in>set stats. is_finite (average (snd e)) \<and> is_finite (std_dev (snd e)))"
proof (induction aggs)
  case Nil
  show ?case by simp
next
  case (Cons p aggs)
  obtain k vs where p: "p = (k, vs)" by (cases p)
  have "\<And>v. v \<in> set vs \<Longrightarrow> is_finite v" using Cons.prems [of k vs] p by simp
  from compute_statistics_finite_fields [OF this] obtain st where
    st: "compute_statistics (map Some vs) = Inr st" "is_finite (average st)"
        "is_finite (std_dev st)" by blast
  from Cons.IH Cons.prems obtain stats where
    r: "stats_of aggs = Inr stats" "length stats = length aggs"
       "\<forall>e\<in>set stats. is_finite (average (snd e)) \<and> is_finite (std_dev (snd e))"
    by (metis list.set_intros(2))
  show ?case unfolding p using st r by (simp add: ebind_def)
qed

lemma finite_rankings_descending:
  assumes "stats_of aggs = Inr stats"
    and "\<And>k vs v. (k, vs) \<in> set aggs \<Longrightarrow> v \<in> set vs \<Longrightarrow> is_finite v"
  shows "descending_by (\<lambda>e. average (snd e)) (top_by_avg stats)"
    and "descending_by (\<lambda>e. std_dev (snd e)) (top_by_stddev stats)"
proof -
  from stats_of_finite [of aggs, OF assms(2)] assms(1)
  have fin: "\<forall>e\<in>set stats. is_finite (average (snd e)) \<and> is_finite (std_dev (snd e))"
    by auto
  have "NaN \<notin> (\<lambda>e. average (snd e)) ` set stats"
  proof
    assume "NaN \<in> (\<lambda>e. average (snd e)) ` set stats"
    then obtain e where "e \<in> set stats" "average (snd e) = NaN" by auto
    with fin show False by (metis is_finite.simps(4))
  qed
  then show "descending_by (\<lambda>e. average (snd e)) (top_by_avg stats)"
    unfolding top_by_avg_def by (intro descending_by_take sorted_reverse_descending)
  have "NaN \<notin> (\<lambda>e. std_dev (snd e)) ` set stats"
  proof
    assume "NaN \<in> (\<lambda>e. std_dev (snd e)) ` set stats"
    then obtain e where "e \<in> set stats" "std_dev (snd e) = NaN" by auto
    with fin show False by (metis is_finite.simps(4))
  qed
  then show "descending_by (\<lambda>e. std_dev (snd e)) (top_by_stddev stats)"
    unfolding top_by_stddev_def by (intro descending_by_take sorted_reverse_descending)
qed

end
